theory Spec2Isabelle
  imports Main "HOL-Library.Sublist"
begin

section \<open>JavaScript values, the object store and the call trace\<close>

text \<open>
  The program is TypeScript running on a JavaScript engine. Its values are modelled by
  \<open>jsval\<close>: the primitives, a reference \<open>JRef a\<close> to the object stored at address \<open>a\<close>,
  and \<open>JBuiltin n\<close> for an object of the runtime itself (the functions every object
  inherits from \<open>Object.prototype\<close>). Numbers are restricted to the integers; \<open>NaN\<close> and
  fractions do not occur in what is proved here. Reference equality of two instances is
  equality of their addresses.
\<close>

datatype jsval =
    JUndefined
  | JNull
  | JBool bool
  | JNum int
  | JStr string
  | JRef nat
  | JBuiltin string

text \<open>What \<open>if (x)\<close>, \<open>!x\<close>, \<open>x || y\<close> and \<open>x && y\<close> test.\<close>

fun truthy :: "jsval \<Rightarrow> bool" where
  "truthy JUndefined = False"
| "truthy JNull = False"
| "truthy (JBool b) = b"
| "truthy (JNum n) = (n \<noteq> 0)"
| "truthy (JStr s) = (s \<noteq> [])"
| "truthy (JRef a) = True"
| "truthy (JBuiltin n) = True"

text \<open>
  An object is the list of its own properties, in insertion order; an array is an object
  whose properties are its indices and its \<open>length\<close>. The store is the list of all objects, an address being a
  position in it, so a new object is appended and its address is the old length.
\<close>

type_synonym obj = "(string \<times> jsval) list"
type_synonym heap = "obj list"

text \<open>A call either returns a value or throws one (for an \<open>async\<close> function: a promise
  that resolves or rejects).\<close>

datatype 'a res = Ok 'a | Threw jsval

text \<open>The payload handed to \<open>receive\<close>: the object literals
  \<open>{ type: 'quick_reply', text: label, payload: value }\<close> and \<open>{ type: 'text', text: t }\<close>.\<close>

datatype inbound = QuickReply jsval jsval | TextMessage jsval

text \<open>The two bodies posted to an interactive action's response URL:
  \<open>{ text: `*${label}*` }\<close> (kept as the label the template interpolates) and
  \<open>{ delete_original: true }\<close>.\<close>

datatype post_body = ReplaceWithLabel jsval | DeleteOriginal

datatype renderer =
    CardToCarouselRenderer
  | SlackTextRenderer
  | SlackImageRenderer
  | SlackCarouselRenderer
  | SlackChoicesRenderer
  | SlackFeedbackRenderer

datatype sender = SlackTypingSender | SlackCommonSender

text \<open>
  The trace is a ghost variable: the model appends an event whenever the program calls one
  of its collaborators, so that "is called", "is called once" and "is called before" are
  statements about a list. The program cannot read it.
\<close>

datatype event =
    CreateScope string
  | ConvGet string string
  | ConvRecent string jsval
  | MsgCreate string string inbound jsval
  | RHandles renderer bool
  | RRender renderer
  | SHandles sender bool
  | SSend sender
  | AxiosPost jsval post_body
  | Receive jsval inbound

text \<open>
  What a collaborator can touch is the machine: the object store and a state \<open>'w\<close> of its
  own (databases, the network, the vendor SDK). An effect is a function of the machine.
\<close>

type_synonym 'w mach = "heap \<times> 'w"
type_synonym ('a, 'w) eff = "'w mach \<Rightarrow> 'a res \<times> 'w mach"

record 'w state =
  mach :: "'w mach"
  trace :: "event list"

definition call :: "event \<Rightarrow> ('a, 'w) eff \<Rightarrow> 'w state \<Rightarrow> 'a res \<times> 'w state" where
  "call ev f s = (case f (mach s) of (r, m) \<Rightarrow> (r, \<lparr>mach = m, trace = trace s @ [ev]\<rparr>))"

definition note_event :: "event \<Rightarrow> 'w state \<Rightarrow> 'w state" where
  "note_event ev s = s\<lparr>trace := trace s @ [ev]\<rparr>"

section \<open>ScopeableService (src/base/scopeable.ts)\<close>

text \<open>
  \<open>private scopes: { [scopeId: string]: T } = {}\<close> is a plain object used as a dictionary.
  Its own properties are the map \<open>scopes\<close>; a read \<open>this.scopes[botId]\<close> of a name that is
  not an own property continues in \<open>Object.prototype\<close>, which every object literal
  inherits from, and yields \<open>undefined\<close> only when the name is not found there either.
\<close>

definition object_prototype_names :: "string list" where
  "object_prototype_names =
     [''constructor'', ''__defineGetter__'', ''__defineSetter__'', ''hasOwnProperty'',
      ''__lookupGetter__'', ''__lookupSetter__'', ''isPrototypeOf'', ''propertyIsEnumerable'',
      ''toString'', ''valueOf'', ''__proto__'', ''toLocaleString'']"

definition object_prototype :: "string \<Rightarrow> jsval" where
  "object_prototype k = (if k \<in> set object_prototype_names then JBuiltin k else JUndefined)"

definition scopes_get :: "(string \<rightharpoonup> jsval) \<Rightarrow> string \<Rightarrow> jsval" where
  "scopes_get scopes botId = (case scopes botId of Some v \<Rightarrow> v | None \<Rightarrow> object_prototype botId)"

text \<open>
  \<open>createScope\<close> is abstract: the factory is a parameter, an effect that returns the scope
  or throws (and that does not call \<open>forBot\<close> of the same service while it runs).
  \<open>forBot\<close> follows the source line by line: read, test \<open>!scope\<close>, create, store, return. The write \<open>this.scopes[botId] = scope\<close> is reached only after a falsy read, hence
  never for an inherited name (whose read is a function or object), and adds or
  overwrites an own property.
\<close>

type_synonym 'w factory = "string \<Rightarrow> (jsval, 'w) eff"

definition forBot ::
  "'w factory \<Rightarrow> string \<Rightarrow> (string \<rightharpoonup> jsval) \<times> 'w state
     \<Rightarrow> jsval res \<times> (string \<rightharpoonup> jsval) \<times> 'w state" where
  "forBot createScope botId = (\<lambda>(scopes, s).
     let scope = scopes_get scopes botId in
     if \<not> truthy scope then
       (case call (CreateScope botId) (createScope botId) s of
          (Threw e, s') \<Rightarrow> (Threw e, scopes, s')
        | (Ok scope', s') \<Rightarrow> (Ok scope', scopes(botId \<mapsto> scope'), s'))
     else (Ok scope, scopes, s))"

text \<open>A caller that asks for the scopes of a list of tenants, one after the other.\<close>

fun forBot_each ::
  "'w factory \<Rightarrow> string list \<Rightarrow> (string \<rightharpoonup> jsval) \<times> 'w state
     \<Rightarrow> (string \<rightharpoonup> jsval) \<times> 'w state" where
  "forBot_each createScope [] st = st"
| "forBot_each createScope (b # bs) st = forBot_each createScope bs (snd (forBot createScope b st))"

text \<open>Three factories used as concrete inputs: one that builds a new object on every
  call (as \<open>new Scoped(botId)\<close> does), one that returns the number \<open>0\<close>, and one that hands
  out the same object every time.\<close>

definition new_object_factory :: "unit factory" where
  "new_object_factory b = (\<lambda>(h, w). (Ok (JRef (length h)), (h @ [[(''botId'', JStr b)]], w)))"

definition zero_factory :: "unit factory" where
  "zero_factory b = (\<lambda>m. (Ok (JNum 0), m))"

definition shared_factory :: "unit factory" where
  "shared_factory b = (\<lambda>m. (Ok (JRef 0), m))"

definition fresh_state :: "unit state" where
  "fresh_state = \<lparr>mach = ([], ()), trace = []\<rparr>"

definition one_object_state :: "unit state" where
  "one_object_state = \<lparr>mach = ([[]], ()), trace = []\<rparr>"

section \<open>Reading properties; the lodash helpers\<close>

text \<open>
  \<open>v[k]\<close> for a value \<open>v\<close> that is neither \<open>undefined\<close> nor \<open>null\<close>: an own property of the
  object, a character or the length of a string, else what \<open>Object.prototype\<close> has under
  that name. Stored objects hold JSON values (request bodies and webhook events are parsed
  JSON), so the own properties of the runtime's functions are not listed, and neither are
  the methods of \<open>String.prototype\<close> and its like: the program reads none of them by name.
\<close>

definition digit_of :: "char \<Rightarrow> nat option" where
  "digit_of c =
     (let n = (of_char c :: nat) in if 48 \<le> n \<and> n \<le> 57 then Some (n - 48) else None)"

text \<open>An array index as a property name: a decimal numeral without a leading zero.\<close>

fun index_digits :: "nat \<Rightarrow> string \<Rightarrow> nat option" where
  "index_digits acc [] = Some acc"
| "index_digits acc (c # cs) =
     (case digit_of c of None \<Rightarrow> None | Some d \<Rightarrow> index_digits (10 * acc + d) cs)"

definition index_of_key :: "string \<Rightarrow> nat option" where
  "index_of_key k =
     (if k = [] \<or> (hd k = CHR ''0'' \<and> tl k \<noteq> []) then None else index_digits 0 k)"

definition get_prop :: "heap \<Rightarrow> jsval \<Rightarrow> string \<Rightarrow> jsval" where
  "get_prop h v k =
     (case v of
        JRef a \<Rightarrow>
          (if a < length h
           then (case map_of (h ! a) k of Some x \<Rightarrow> x | None \<Rightarrow> object_prototype k)
           else JUndefined)
      | JStr s \<Rightarrow>
          (if k = ''length'' then JNum (int (length s))
           else (case index_of_key k of
                   Some i \<Rightarrow> (if i < length s then JStr [s ! i] else object_prototype k)
                 | None \<Rightarrow> object_prototype k))
      | JUndefined \<Rightarrow> JUndefined
      | JNull \<Rightarrow> JUndefined
      | _ \<Rightarrow> object_prototype k)"

definition type_error :: jsval where
  "type_error = JStr ''TypeError''"

text \<open>The expression \<open>v.k\<close> in the program text: reading a property of \<open>undefined\<close> or
  \<open>null\<close> throws a TypeError.\<close>

definition prop_read :: "heap \<Rightarrow> jsval \<Rightarrow> string \<Rightarrow> jsval res" where
  "prop_read h v k = (if v = JUndefined \<or> v = JNull then Threw type_error else Ok (get_prop h v k))"

text \<open>
  Modelled from the spec: lodash is a library, not part of the sources; the spec calls its
  use here the extraction of paths from untyped payloads, and the definitions follow the
  library function by function. The program hands \<open>_.get\<close> and \<open>_.at\<close> a path as one
  string, and lodash decides what the string means by looking at the object
  (\<open>castPath\<close>, \<open>isKey\<close>): the whole string is taken as a single key when it is a plain
  name (\<open>/^\w*$/\<close>), when it has no \<open>.\<close> and no bracket pair, or when the object has a
  property of exactly that name (\<open>path in Object(object)\<close>); only otherwise is it split
  into keys (\<open>stringToPath\<close>: \<open>'actions[0].action_id'\<close> gives \<open>[actions, 0, action_id]\<close>).
\<close>

definition word_char :: "char \<Rightarrow> bool" where
  "word_char c =
     (let n = (of_char c :: nat)
      in (48 \<le> n \<and> n \<le> 57) \<or> (65 \<le> n \<and> n \<le> 90) \<or> n = 95 \<or> (97 \<le> n \<and> n \<le> 122))"

text \<open>\<open>reIsPlainProp = /^\w*$/\<close>.\<close>

definition reIsPlainProp :: "string \<Rightarrow> bool" where
  "reIsPlainProp s = list_all word_char s"

text \<open>\<open>reIsDeepProp\<close> matches a string that holds a \<open>.\<close>, or a \<open>[\<close> closed by a \<open>]\<close> with
  no bracket between them (or with a quoted string between them); some such pair exists
  exactly when a \<open>]\<close> stands somewhere after a \<open>[\<close>.\<close>

definition reIsDeepProp :: "string \<Rightarrow> bool" where
  "reIsDeepProp s =
     (CHR ''.'' \<in> set s \<or> CHR '']'' \<in> set (dropWhile (\<lambda>c. c \<noteq> CHR ''['') s))"

text \<open>\<open>k in Object(v)\<close> for a value \<open>v\<close> that is neither \<open>undefined\<close> nor \<open>null\<close>: an own or
  inherited property (the same properties that \<open>get_prop\<close> reads).\<close>

definition has_property :: "heap \<Rightarrow> jsval \<Rightarrow> string \<Rightarrow> bool" where
  "has_property h v k =
     (case v of
        JRef a \<Rightarrow> a < length h \<and> (map_of (h ! a) k \<noteq> None \<or> k \<in> set object_prototype_names)
      | JStr s \<Rightarrow>
          k = ''length''
          \<or> (case index_of_key k of Some i \<Rightarrow> i < length s | None \<Rightarrow> False)
          \<or> k \<in> set object_prototype_names
      | JUndefined \<Rightarrow> False
      | JNull \<Rightarrow> False
      | _ \<Rightarrow> k \<in> set object_prototype_names)"

text \<open>\<open>isKey(value, object)\<close> for a string \<open>value\<close>:
  \<open>reIsPlainProp.test(value) || !reIsDeepProp.test(value) ||
   (object != null && value in Object(object))\<close>.\<close>

definition isKey :: "heap \<Rightarrow> jsval \<Rightarrow> string \<Rightarrow> bool" where
  "isKey h object path =
     (reIsPlainProp path \<or> \<not> reIsDeepProp path
      \<or> (object \<noteq> JUndefined \<and> object \<noteq> JNull \<and> has_property h object path))"

text \<open>\<open>stringToPath\<close> cuts the string at every \<open>.\<close>, \<open>[\<close> and \<open>]\<close> and keeps the pieces
  between them. This is what lodash's \<open>rePropName\<close> yields for a path whose pieces are
  not empty and whose brackets hold an integer or a name, as in every path of the
  program text; quoted keys, fractions in brackets and empty keys (\<open>a..b\<close>, \<open>a[]\<close>) are
  not modelled.\<close>

fun split_keys :: "string \<Rightarrow> string \<Rightarrow> string list" where
  "split_keys cur [] = (if cur = [] then [] else [cur])"
| "split_keys cur (c # cs) =
     (if c = CHR ''.'' \<or> c = CHR ''['' \<or> c = CHR '']''
      then (if cur = [] then split_keys [] cs else cur # split_keys [] cs)
      else split_keys (cur @ [c]) cs)"

definition stringToPath :: "string \<Rightarrow> string list" where
  "stringToPath s = split_keys [] s"

definition castPath :: "heap \<Rightarrow> jsval \<Rightarrow> string \<Rightarrow> string list" where
  "castPath h object path = (if isKey h object path then [path] else stringToPath path)"

text \<open>\<open>baseGet\<close>: the loop \<open>while (object != null && index < length) object =
  object[path[index++]]\<close>, and its result \<open>(index && index == length) ? object :
  undefined\<close>: \<open>undefined\<close> when the loop stopped early or the path has no key.\<close>

fun baseGet_loop :: "heap \<Rightarrow> jsval \<Rightarrow> string list \<Rightarrow> jsval" where
  "baseGet_loop h v [] = v"
| "baseGet_loop h v (k # ks) =
     (if v = JUndefined \<or> v = JNull then JUndefined else baseGet_loop h (get_prop h v k) ks)"

definition baseGet :: "heap \<Rightarrow> jsval \<Rightarrow> string \<Rightarrow> jsval" where
  "baseGet h object path =
     (let keys = castPath h object path
      in if keys = [] then JUndefined else baseGet_loop h object keys)"

text \<open>\<open>_.get(object, path, default)\<close>: \<open>undefined\<close> for a missing object, else \<open>baseGet\<close>,
  and the default in place of an \<open>undefined\<close> result. \<open>_.at(object, paths)\<close> is \<open>_.get\<close>
  for each path; \<open>_.find\<close> returns the first element whose test is truthy, or
  \<open>undefined\<close>.\<close>

definition lodash_get :: "heap \<Rightarrow> jsval \<Rightarrow> string \<Rightarrow> jsval \<Rightarrow> jsval" where
  "lodash_get h object path dflt =
     (let r = (if object = JUndefined \<or> object = JNull then JUndefined
               else baseGet h object path)
      in if r = JUndefined then dflt else r)"

definition lodash_at :: "heap \<Rightarrow> jsval \<Rightarrow> string list \<Rightarrow> jsval list" where
  "lodash_at h object paths = map (\<lambda>path. lodash_get h object path JUndefined) paths"

definition lodash_find :: "(jsval \<Rightarrow> jsval) \<Rightarrow> jsval list \<Rightarrow> jsval" where
  "lodash_find test xs = (case List.find (\<lambda>x. truthy (test x)) xs of Some x \<Rightarrow> x | None \<Rightarrow> JUndefined)"

definition js_or :: "jsval \<Rightarrow> jsval \<Rightarrow> jsval" where
  "js_or a b = (if truthy a then a else b)"

definition js_and :: "jsval \<Rightarrow> jsval \<Rightarrow> jsval" where
  "js_and a b = (if truthy a then b else a)"

text \<open>
  Modelled from the spec: \<open>_.cloneDeep(value)\<close> (lodash again) returns what the spec calls a
  deep copy. A primitive is returned
  as it is, and for a function lodash returns a new empty object. For an object the model
  copies every object of the store to a new address, references redirected to the copies,
  and returns the copy of the value: the part of it that is reachable from the result is
  the copy lodash builds, object for object, and the rest is garbage that no reference
  leads to.
\<close>

fun shift :: "nat \<Rightarrow> jsval \<Rightarrow> jsval" where
  "shift n (JRef a) = JRef (a + n)"
| "shift n v = v"

definition shift_obj :: "nat \<Rightarrow> obj \<Rightarrow> obj" where
  "shift_obj n ps = map (\<lambda>kv. (fst kv, shift n (snd kv))) ps"

definition cloneDeep :: "jsval \<Rightarrow> heap \<Rightarrow> jsval \<times> heap" where
  "cloneDeep v h =
     (case v of
        JRef a \<Rightarrow> (JRef (a + length h), h @ map (shift_obj (length h)) h)
      | JBuiltin f \<Rightarrow> (JRef (length h), h @ [[]])
      | _ \<Rightarrow> (v, h))"

text \<open>An assignment \<open>o.k = v\<close> to the object at address \<open>a\<close>, as the caller of \<open>send\<close> may do
  to its payload.\<close>

fun put :: "string \<Rightarrow> jsval \<Rightarrow> obj \<Rightarrow> obj" where
  "put k v [] = [(k, v)]"
| "put k v (kv # ps) = (if fst kv = k then (k, v) # ps else kv # put k v ps)"

definition set_prop :: "nat \<Rightarrow> string \<Rightarrow> jsval \<Rightarrow> heap \<Rightarrow> heap" where
  "set_prop a k v h = (if a < length h then h[a := put k v (h ! a)] else h)"



section \<open>The channel and its collaborators\<close>

text \<open>
  Modelled from the spec: the conversation and message stores, the renderer and sender
  classes, the \<open>Channel\<close> base class, \<open>SlackContext\<close> and axios are imported from files
  that are not part of the sources. They are parameters, with the interfaces the spec
  gives them: \<open>get(conversationId)\<close> returns a conversation or nothing,
  \<open>recent(channelRef)\<close> a conversation, \<open>create\<close> a message; a renderer's \<open>handles\<close> is a
  predicate of the context and \<open>render\<close> changes the context or throws; a sender's
  \<open>handles\<close> is a predicate and \<open>send\<close> reads the context and performs platform calls.
  The chains \<open>this.renderers\<close> and \<open>this.senders\<close> of the base class are the lists that
  \<open>setupRenderers\<close> and \<open>setupSenders\<close> return.
  The tenant-scoped stores \<open>this.conversations.forBot(this.botId)\<close> and
  \<open>this.messages.forBot(this.botId)\<close> take the tenant id as their first argument.
\<close>

record conversation =
  conv_id :: string
  userId :: string

record slack_context =
  ctx_client :: "jsval \<times> jsval \<times> jsval"
  handlers :: "string list"
  payload :: jsval
  botUrl :: string
  message_blocks :: "jsval list"
  channelId :: jsval

text \<open>
  JavaScript runs one piece of code at a time: other code (the caller of an \<open>async\<close>
  function included) runs only while the function is suspended at an \<open>await\<close>. What it
  does to the machine then is the parameter \<open>meanwhile\<close>.
\<close>

record 'w channel =
  botId :: string
  web_client :: jsval
  events_adapter :: jsval
  interactive_adapter :: jsval
  conv_get :: "string \<Rightarrow> string \<Rightarrow> (conversation option, 'w) eff"
  conv_recent :: "string \<Rightarrow> jsval \<Rightarrow> (conversation, 'w) eff"
  msg_create :: "string \<Rightarrow> string \<Rightarrow> inbound \<Rightarrow> jsval \<Rightarrow> (jsval, 'w) eff"
  r_handles :: "renderer \<Rightarrow> slack_context \<Rightarrow> heap \<Rightarrow> bool"
  r_render :: "renderer \<Rightarrow> slack_context \<Rightarrow> (slack_context, 'w) eff"
  s_handles :: "sender \<Rightarrow> slack_context \<Rightarrow> heap \<Rightarrow> bool"
  s_send :: "sender \<Rightarrow> slack_context \<Rightarrow> (unit, 'w) eff"
  axios_post :: "jsval \<Rightarrow> post_body \<Rightarrow> (unit, 'w) eff"
  meanwhile :: "'w mach \<Rightarrow> 'w mach"

definition await :: "'w channel \<Rightarrow> ('w state \<Rightarrow> 'a res \<times> 'w state) \<Rightarrow> 'w state \<Rightarrow> 'a res \<times> 'w state" where
  "await ch f s = (case f s of (r, s') \<Rightarrow> (r, s'\<lparr>mach := meanwhile ch (mach s')\<rparr>))"

section \<open>SlackChannel (src/api.ts)\<close>

definition setupRenderers :: "renderer list" where
  "setupRenderers =
     [CardToCarouselRenderer, SlackTextRenderer, SlackImageRenderer,
      SlackCarouselRenderer, SlackChoicesRenderer, SlackFeedbackRenderer]"

definition setupSenders :: "sender list" where
  "setupSenders = [SlackTypingSender, SlackCommonSender]"

text \<open>\<open>receive\<close>, lines 90 to 98 (the \<open>console.log\<close> is left out).\<close>

definition receive :: "'w channel \<Rightarrow> jsval \<Rightarrow> inbound \<Rightarrow> 'w state \<Rightarrow> unit res \<times> 'w state" where
  "receive ch ctx pl s0 =
     (let s = note_event (Receive ctx pl) s0;
          h = fst (mach s);
          channel_id = js_or (lodash_get h ctx ''channel.id'' JUndefined)
                             (lodash_get h ctx ''channel'' JUndefined);
          user_id = js_or (lodash_get h ctx ''user.id'' JUndefined)
                          (lodash_get h ctx ''user'' JUndefined)
      in case await ch (call (ConvRecent (botId ch) channel_id)
                          (conv_recent ch (botId ch) channel_id)) s of
           (Threw e, s1) \<Rightarrow> (Threw e, s1)
         | (Ok conv, s1) \<Rightarrow>
             (case await ch (call (MsgCreate (botId ch) (conv_id conv) pl user_id)
                               (msg_create ch (botId ch) (conv_id conv) pl user_id)) s1 of
                (Threw e, s2) \<Rightarrow> (Threw e, s2)
              | (Ok msg, s2) \<Rightarrow> (Ok (), s2)))"

text \<open>The context literal of \<open>send\<close>, lines 103 to 111. \<open>conversation?.userId!\<close> is
  \<open>undefined\<close> when there is no conversation.\<close>

definition make_context ::
  "'w channel \<Rightarrow> conversation option \<Rightarrow> jsval \<Rightarrow> heap \<Rightarrow> slack_context \<times> heap" where
  "make_context ch conv p h =
     (case cloneDeep p h of
        (p', h') \<Rightarrow>
          (\<lparr>ctx_client = (web_client ch, events_adapter ch, interactive_adapter ch),
            handlers = [],
            payload = p',
            botUrl = ''https://duckduckgo.com/'',
            message_blocks = [],
            channelId = (case conv of None \<Rightarrow> JUndefined | Some c \<Rightarrow> JStr (userId c))\<rparr>,
           h'))"

text \<open>The first part of \<open>send\<close>, lines 101 to 111: the conversation is awaited first, the
  context built when the function is resumed.\<close>

definition send_context ::
  "'w channel \<Rightarrow> string \<Rightarrow> jsval \<Rightarrow> 'w state \<Rightarrow> slack_context res \<times> 'w state" where
  "send_context ch conversationId p s =
     (case await ch (call (ConvGet (botId ch) conversationId)
                       (conv_get ch (botId ch) conversationId)) s of
        (Threw e, s1) \<Rightarrow> (Threw e, s1)
      | (Ok conv, s1) \<Rightarrow>
          (case make_context ch conv p (fst (mach s1)) of
             (ctx, h') \<Rightarrow> (Ok ctx, s1\<lparr>mach := (h', snd (mach s1))\<rparr>)))"

text \<open>The loop over \<open>this.renderers\<close>, lines 113 to 120.\<close>

fun render_loop ::
  "'w channel \<Rightarrow> renderer list \<Rightarrow> slack_context \<Rightarrow> 'w state \<Rightarrow> slack_context res \<times> 'w state" where
  "render_loop ch [] ctx s = (Ok ctx, s)"
| "render_loop ch (r # rs) ctx s =
     (if r_handles ch r ctx (fst (mach s))
      then (case call (RRender r) (r_render ch r ctx) (note_event (RHandles r True) s) of
              (Threw e, s') \<Rightarrow> (Threw e, s')
            | (Ok ctx', s') \<Rightarrow> render_loop ch rs (ctx'\<lparr>handlers := handlers ctx' @ [''id'']\<rparr>) s')
      else render_loop ch rs ctx (note_event (RHandles r False) s))"

text \<open>The loop over \<open>this.senders\<close>, lines 122 to 126.\<close>

fun sender_loop ::
  "'w channel \<Rightarrow> sender list \<Rightarrow> slack_context \<Rightarrow> 'w state \<Rightarrow> unit res \<times> 'w state" where
  "sender_loop ch [] ctx s = (Ok (), s)"
| "sender_loop ch (x # xs) ctx s =
     (if s_handles ch x ctx (fst (mach s))
      then (case await ch (call (SSend x) (s_send ch x ctx)) (note_event (SHandles x True) s) of
              (Threw e, s') \<Rightarrow> (Threw e, s')
            | (Ok u, s') \<Rightarrow> sender_loop ch xs ctx s')
      else sender_loop ch xs ctx (note_event (SHandles x False) s))"

definition send :: "'w channel \<Rightarrow> string \<Rightarrow> jsval \<Rightarrow> 'w state \<Rightarrow> unit res \<times> 'w state" where
  "send ch conversationId p s =
     (case send_context ch conversationId p s of
        (Threw e, s1) \<Rightarrow> (Threw e, s1)
      | (Ok ctx, s1) \<Rightarrow>
          (case render_loop ch setupRenderers ctx s1 of
             (Threw e, s2) \<Rightarrow> (Threw e, s2)
           | (Ok ctx', s2) \<Rightarrow> sender_loop ch setupSenders ctx' s2))"



text \<open>The listener for message events, lines 184 to 196.\<close>

definition discardedSubtypes :: "string list" where
  "discardedSubtypes = [''bot_message'', ''message_deleted'', ''message_changed'']"

text \<open>The test \<open>(x) => x && x.length\<close> and the expression
  \<open>_.find(_.at(payload, ['text', 'files.0.name', 'files.0.title']), test) || 'N/A'\<close>.\<close>

definition has_length :: "heap \<Rightarrow> jsval \<Rightarrow> jsval" where
  "has_length h x = js_and x (get_prop h x ''length'')"

definition message_text :: "heap \<Rightarrow> jsval \<Rightarrow> jsval" where
  "message_text h p =
     js_or (lodash_find (has_length h)
              (lodash_at h p [''text'', ''files.0.name'', ''files.0.title'']))
           (JStr ''N/A'')"

definition on_message :: "'w channel \<Rightarrow> jsval \<Rightarrow> 'w state \<Rightarrow> unit res \<times> 'w state" where
  "on_message ch p s =
     (let h = fst (mach s) in
      case prop_read h p ''subtype'' of
        Threw e \<Rightarrow> (Threw e, s)
      | Ok subtype \<Rightarrow>
          (if subtype \<notin> set (map JStr discardedSubtypes) \<and> \<not> truthy (get_prop h p ''bot_id'')
           then await ch (receive ch p (TextMessage (message_text h p))) s
           else (Ok (), s)))"

text \<open>Ghost readings of a trace: which renderers and senders were asked, with the answer,
  and which were run.\<close>

fun asked_renderer :: "event \<Rightarrow> (renderer \<times> bool) option" where
  "asked_renderer (RHandles r b) = Some (r, b)"
| "asked_renderer e = None"

fun ran_renderer :: "event \<Rightarrow> renderer option" where
  "ran_renderer (RRender r) = Some r"
| "ran_renderer e = None"

fun asked_sender :: "event \<Rightarrow> (sender \<times> bool) option" where
  "asked_sender (SHandles x b) = Some (x, b)"
| "asked_sender e = None"

fun ran_sender :: "event \<Rightarrow> sender option" where
  "ran_sender (SSend x) = Some x"
| "ran_sender e = None"

fun is_post :: "event \<Rightarrow> bool" where
  "is_post (AxiosPost u b) = True"
| "is_post e = False"

text \<open>What one turn of each loop appends to the trace: the question, and the run when the
  answer was yes.\<close>

fun renderer_events :: "renderer \<times> bool \<Rightarrow> event list" where
  "renderer_events (r, b) = RHandles r b # (if b then [RRender r] else [])"

fun sender_events :: "sender \<times> bool \<Rightarrow> event list" where
  "sender_events (x, b) = SHandles x b # (if b then [SSend x] else [])"

definition renderers_asked :: "event list \<Rightarrow> (renderer \<times> bool) list" where
  "renderers_asked es = List.map_filter asked_renderer es"

definition renderers_run :: "event list \<Rightarrow> renderer list" where
  "renderers_run es = List.map_filter ran_renderer es"

definition senders_asked :: "event list \<Rightarrow> (sender \<times> bool) list" where
  "senders_asked es = List.map_filter asked_sender es"

definition senders_run :: "event list \<Rightarrow> sender list" where
  "senders_run es = List.map_filter ran_sender es"

section \<open>What the spec says of the renderers\<close>

text \<open>The objects a value refers to, and a value with its references renamed.\<close>

fun refs_of :: "jsval \<Rightarrow> nat set" where
  "refs_of (JRef a) = {a}"
| "refs_of v = {}"

definition obj_refs :: "obj \<Rightarrow> nat set" where
  "obj_refs ps = (\<Union>kv \<in> set ps. refs_of (snd kv))"

fun rename :: "(nat \<Rightarrow> nat) \<Rightarrow> jsval \<Rightarrow> jsval" where
  "rename f (JRef a) = JRef (f a)"
| "rename f v = v"

definition rename_obj :: "(nat \<Rightarrow> nat) \<Rightarrow> obj \<Rightarrow> obj" where
  "rename_obj f ps = map (\<lambda>kv. (fst kv, rename f (snd kv))) ps"

text \<open>
  Two payloads, each in its store, are the same payload when the objects they lead to
  correspond one to one: \<open>A\<close> holds the objects of the first (every object an object of
  \<open>A\<close> refers to is in \<open>A\<close> again), \<open>f\<close> maps each to its counterpart, and the counterpart
  has the same properties in the same order, with the same primitive values and with
  references to the counterparts. The same object read twice while nothing it leads to has
  changed is the same payload, and so are two parses of the same JSON text.
\<close>

definition same_shape :: "(nat \<Rightarrow> nat) \<Rightarrow> nat set \<Rightarrow> heap \<Rightarrow> heap \<Rightarrow> bool" where
  "same_shape f A h h' =
     (inj_on f A
      \<and> (\<forall>a \<in> A. a < length h \<and> f a < length h' \<and> obj_refs (h ! a) \<subseteq> A
                   \<and> h' ! f a = rename_obj f (h ! a)))"

definition same_payload :: "jsval \<Rightarrow> heap \<Rightarrow> jsval \<Rightarrow> heap \<Rightarrow> bool" where
  "same_payload v h v' h' = (\<exists>f A. same_shape f A h h' \<and> refs_of v \<subseteq> A \<and> v' = rename f v)"

text \<open>The store in which \<open>send\<close> finds itself when it is resumed after the conversation
  lookup, which is where it copies the payload.\<close>

definition copy_store :: "'w channel \<Rightarrow> string \<Rightarrow> 'w state \<Rightarrow> heap" where
  "copy_store ch conversationId s =
     fst (meanwhile ch (snd (conv_get ch (botId ch) conversationId (mach s))))"

text \<open>
  Modelled from the spec: the renderer classes are not part of the sources. The spec
  calls a renderer stateless across invocations, holding configuration only, and a unit
  that decides whether it applies to an outbound payload. So whether a renderer applies is
  determined by the payload of its context, and so are whether its \<open>render\<close> returns and
  the payload of the context it leaves (which may be a rewritten or a new object).
\<close>

definition stateless_renderers :: "'w channel \<Rightarrow> bool" where
  "stateless_renderers ch =
     (\<forall>r c m c' m'.
        same_payload (payload c) (fst m) (payload c') (fst m') \<longrightarrow>
          r_handles ch r c (fst m) = r_handles ch r c' (fst m')
        \<and> (case (fst (r_render ch r c m), fst (r_render ch r c' m')) of
             (Ok c1, Ok c1') \<Rightarrow>
               same_payload (payload c1) (fst (snd (r_render ch r c m)))
                            (payload c1') (fst (snd (r_render ch r c' m')))
           | (Threw e, Threw e') \<Rightarrow> True
           | _ \<Rightarrow> False))"

text \<open>The objects that can be reached from a set of objects by following references.\<close>

inductive_set reach :: "heap \<Rightarrow> nat set \<Rightarrow> nat set" for h :: heap and roots :: "nat set" where
  root: "a \<in> roots \<Longrightarrow> a \<in> reach h roots"
| step: "a \<in> reach h roots \<Longrightarrow> a < length h \<Longrightarrow> b \<in> obj_refs (h ! a) \<Longrightarrow> b \<in> reach h roots"



section \<open>Example inputs\<close>

text \<open>A channel with simple collaborators, and the stores of a button action and of a
  message event as the webhook adapters hand them over (address 0 is the payload).\<close>

definition demo_conversation :: conversation where
  "demo_conversation = \<lparr>conv_id = ''conv-1'', userId = ''U1''\<rparr>"

definition demo_channel :: "unit channel" where
  "demo_channel =
     \<lparr>botId = ''bot-a'',
      web_client = JNull,
      events_adapter = JNull,
      interactive_adapter = JNull,
      conv_get = (\<lambda>b c m. (Ok (if c = ''conv-1'' then Some demo_conversation else None), m)),
      conv_recent = (\<lambda>b c m. (Ok demo_conversation, m)),
      msg_create = (\<lambda>b c pl u m. (Ok JNull, m)),
      r_handles = (\<lambda>r ctx h.
         (r = SlackTextRenderer \<and> get_prop h (payload ctx) ''type'' = JStr ''text'')
         \<or> (r = SlackChoicesRenderer \<and> truthy (get_prop h (payload ctx) ''choices''))),
      r_render = (\<lambda>r ctx m. (Ok (ctx\<lparr>message_blocks := message_blocks ctx @ [JStr ''block'']\<rparr>), m)),
      s_handles = (\<lambda>x ctx h. True),
      s_send = (\<lambda>x ctx m. (Ok (), m)),
      axios_post = (\<lambda>u b m. (Ok (), m)),
      meanwhile = (\<lambda>m. m)\<rparr>"



definition message_state :: "obj \<Rightarrow> unit state" where
  "message_state ev =
     \<lparr>mach = ([ev, [(''0'', JRef 2), (''length'', JNum 1)], [(''name'', JStr ''report.pdf''), (''title'', JStr ''Q3 report'')]], ()),
      trace = []\<rparr>"

definition file_event :: obj where
  "file_event = [(''text'', JStr []), (''files'', JRef 1), (''channel'', JStr ''C1''), (''user'', JStr ''U1'')]"

text \<open>The same event when the event object itself also has a property whose name is the
  whole path \<open>files.0.name\<close>.\<close>

definition keyed_file_event :: obj where
  "keyed_file_event =
     [(''text'', JStr []), (''files.0.name'', JStr ''direct.txt''), (''files'', JRef 1),
      (''channel'', JStr ''C1''), (''user'', JStr ''U1'')]"

text \<open>A payload for \<open>send\<close>, the context and the state after the copy, a channel whose
  typing sender throws, and a channel whose caller changes the payload while \<open>send\<close> is
  suspended.\<close>

definition text_state :: "unit state" where
  "text_state =
     \<lparr>mach = ([[(''type'', JStr ''text''), (''text'', JStr ''hi''), (''choices'', JRef 1)],
               [(''0'', JStr ''yes''), (''1'', JStr ''no''), (''length'', JNum 2)]], ()),
      trace = []\<rparr>"

definition text_context :: slack_context where
  "text_context =
     \<lparr>ctx_client = (JNull, JNull, JNull), handlers = [], payload = JRef 2,
      botUrl = ''https://duckduckgo.com/'', message_blocks = [], channelId = JStr ''U1''\<rparr>"

definition text_state_copied :: "unit state" where
  "text_state_copied =
     \<lparr>mach = ([[(''type'', JStr ''text''), (''text'', JStr ''hi''), (''choices'', JRef 1)],
               [(''0'', JStr ''yes''), (''1'', JStr ''no''), (''length'', JNum 2)],
               [(''type'', JStr ''text''), (''text'', JStr ''hi''), (''choices'', JRef 3)],
               [(''0'', JStr ''yes''), (''1'', JStr ''no''), (''length'', JNum 2)]], ()),
      trace = [ConvGet ''bot-a'' ''conv-1'']\<rparr>"

definition failing_channel :: "unit channel" where
  "failing_channel =
     demo_channel\<lparr>s_send := (\<lambda>x ctx m.
        (if x = SlackTypingSender then Threw (JStr ''timeout'') else Ok (), m))\<rparr>"


text \<open>A channel whose senders and whose surroundings change the machine. Its world is the
  list of payloads for which a typing indicator has been sent and not yet acknowledged.
  The typing sender adds the payload of its context to that list; while \<open>send\<close> is
  suspended the platform acknowledges every listed payload by setting its \<open>acked\<close>
  property; and the common sender applies only to an acknowledged payload. No renderer
  applies.\<close>

definition acking_channel :: "nat list channel" where
  "acking_channel =
     \<lparr>botId = ''bot-a'',
      web_client = JNull,
      events_adapter = JNull,
      interactive_adapter = JNull,
      conv_get = (\<lambda>b c m. (Ok (if c = ''conv-1'' then Some demo_conversation else None), m)),
      conv_recent = (\<lambda>b c m. (Ok demo_conversation, m)),
      msg_create = (\<lambda>b c pl u m. (Ok JNull, m)),
      r_handles = (\<lambda>r ctx h. False),
      r_render = (\<lambda>r ctx m. (Ok ctx, m)),
      s_handles = (\<lambda>x ctx h.
         x = SlackTypingSender \<or> get_prop h (payload ctx) ''acked'' = JBool True),
      s_send = (\<lambda>x ctx m.
         (Ok (), (fst m, (case payload ctx of
                            JRef a \<Rightarrow> (if x = SlackTypingSender then snd m @ [a] else snd m)
                          | _ \<Rightarrow> snd m)))),
      axios_post = (\<lambda>u b m. (Ok (), m)),
      meanwhile = (\<lambda>m. (foldr (\<lambda>a. set_prop a ''acked'' (JBool True)) (snd m) (fst m), []))\<rparr>"

definition acking_state :: "nat list state" where
  "acking_state = \<lparr>mach = (fst (mach text_state), []), trace = []\<rparr>"

text \<open>The state of that channel when the renderer loop of \<open>send\<close> has ended, and the store
  after the typing indicator has been acknowledged.\<close>

definition acking_rendered :: "nat list state" where
  "acking_rendered =
     \<lparr>mach = (fst (mach text_state_copied), []),
      trace = [ConvGet ''bot-a'' ''conv-1'',
               RHandles CardToCarouselRenderer False, RHandles SlackTextRenderer False,
               RHandles SlackImageRenderer False, RHandles SlackCarouselRenderer False,
               RHandles SlackChoicesRenderer False, RHandles SlackFeedbackRenderer False]\<rparr>"

definition acked_store :: heap where
  "acked_store =
     [[(''type'', JStr ''text''), (''text'', JStr ''hi''), (''choices'', JRef 1)],
      [(''0'', JStr ''yes''), (''1'', JStr ''no''), (''length'', JNum 2)],
      [(''type'', JStr ''text''), (''text'', JStr ''hi''), (''choices'', JRef 3),
       (''acked'', JBool True)],
      [(''0'', JStr ''yes''), (''1'', JStr ''no''), (''length'', JNum 2)]]"

text \<open>A channel whose first renderer turns a card into a carousel with one item: it
  creates the carousel and the array of its items in the store and makes the carousel the
  payload of the context. The carousel renderer applies to a payload of type
  \<open>carousel\<close>.\<close>

definition card_channel :: "unit channel" where
  "card_channel =
     demo_channel\<lparr>
       r_handles := (\<lambda>r ctx h.
            (r = CardToCarouselRenderer \<and> get_prop h (payload ctx) ''type'' = JStr ''card'')
          \<or> (r = SlackCarouselRenderer \<and> get_prop h (payload ctx) ''type'' = JStr ''carousel'')),
       r_render := (\<lambda>r ctx m.
          if r = CardToCarouselRenderer
          then (Ok (ctx\<lparr>payload := JRef (length (fst m))\<rparr>),
                (fst m @ [[(''type'', JStr ''carousel''), (''items'', JRef (Suc (length (fst m))))],
                          [(''0'', payload ctx), (''length'', JNum 1)]],
                 snd m))
          else (Ok (ctx\<lparr>message_blocks := message_blocks ctx @ [JStr ''block'']\<rparr>), m))\<rparr>"

definition card_state :: "unit state" where
  "card_state =
     \<lparr>mach = ([[(''type'', JStr ''card''), (''title'', JStr ''Hello'')]], ()), trace = []\<rparr>"

text \<open>The context and the state of that channel after the copy of the card, and the store
  after the card has been made a carousel.\<close>

definition card_context :: slack_context where
  "card_context =
     \<lparr>ctx_client = (JNull, JNull, JNull), handlers = [], payload = JRef 1,
      botUrl = ''https://duckduckgo.com/'', message_blocks = [], channelId = JStr ''U1''\<rparr>"

definition card_state_copied :: "unit state" where
  "card_state_copied =
     \<lparr>mach = ([[(''type'', JStr ''card''), (''title'', JStr ''Hello'')],
               [(''type'', JStr ''card''), (''title'', JStr ''Hello'')]], ()),
      trace = [ConvGet ''bot-a'' ''conv-1'']\<rparr>"

definition carousel_store :: heap where
  "carousel_store =
     [[(''type'', JStr ''card''), (''title'', JStr ''Hello'')],
      [(''type'', JStr ''card''), (''title'', JStr ''Hello'')],
      [(''type'', JStr ''carousel''), (''items'', JRef 3)],
      [(''0'', JRef 1), (''length'', JNum 1)]]"




section \<open>Properties of ScopeableService\<close>

lemma forBot_miss:
  assumes "\<not> truthy (scopes_get scopes b)" and "createScope b (mach s) = (Ok v, m)"
  shows "forBot createScope b (scopes, s) =
           (Ok v, scopes(b \<mapsto> v), \<lparr>mach = m, trace = trace s @ [CreateScope b]\<rparr>)"
  using assms by (simp add: forBot_def call_def)

lemma forBot_hit:
  assumes "scopes b = Some v" and "truthy v"
  shows "forBot createScope b (scopes, s) = (Ok v, scopes, s)"
  using assms by (simp add: forBot_def scopes_get_def)

lemma forBot_entry_kept:
  assumes "b' \<noteq> b \<or> (\<exists>v. scopes b = Some v \<and> truthy v)"
  shows "fst (snd (forBot createScope b' (scopes, s))) b = scopes b"
  using assms
  by (auto simp: forBot_def scopes_get_def call_def Let_def split: prod.splits res.splits option.splits)

lemma forBot_trace:
  "trace (snd (snd (forBot createScope b' (scopes, s)))) =
     trace s @ (if truthy (scopes_get scopes b') then [] else [CreateScope b'])"
  by (auto simp: forBot_def call_def Let_def split: prod.splits res.splits)

lemma forBot_each_kept:
  assumes "scopes b = Some v" and "truthy v"
  shows "fst (forBot_each createScope bs (scopes, s)) b = Some v
       \<and> count_list (trace (snd (forBot_each createScope bs (scopes, s)))) (CreateScope b)
           = count_list (trace s) (CreateScope b)"
  using assms
proof (induction bs arbitrary: scopes s)
  case Nil
  then show ?case by simp
next
  case (Cons b' bs)
  obtain r scopes' s' where step: "forBot createScope b' (scopes, s) = (r, scopes', s')"
    by (metis prod_cases3)
  have kept: "scopes' b = Some v"
    using forBot_entry_kept[of b' b scopes createScope s] Cons.prems step by auto
  have tr: "count_list (trace s') (CreateScope b) = count_list (trace s) (CreateScope b)"
    using forBot_trace[of createScope b' scopes s] step Cons.prems
    by (auto simp: scopes_get_def)
  show ?case using Cons.IH[of scopes' s'] kept Cons.prems(2) step tr by simp
qed

lemma forBot_reads_own_entry_only:
  assumes "b' \<noteq> b"
  shows "fst (forBot createScope b' (scopes(b := x), s)) = fst (forBot createScope b' (scopes, s))"
  using assms
  by (auto simp: forBot_def scopes_get_def call_def Let_def split: prod.splits res.splits option.splits)


lemma forBot_each_other:
  assumes "b \<notin> set bs"
  shows "fst (forBot_each createScope bs (scopes, s)) b = scopes b"
  using assms
proof (induction bs arbitrary: scopes s)
  case Nil
  then show ?case by simp
next
  case (Cons b' bs)
  obtain r scopes' s' where step: "forBot createScope b' (scopes, s) = (r, scopes', s')"
    by (metis prod_cases3)
  have "scopes' b = scopes b"
    using forBot_entry_kept[of b' b scopes createScope s] Cons.prems step by auto
  then show ?case using Cons.IH[of scopes' s'] Cons.prems step by simp
qed

text \<open>
  Claim C1, as amended. Let \<open>b\<close> be a tenant id whose read \<open>this.scopes[b]\<close> is falsy (on a
  new service: every id that is not the name of a property inherited from
  \<open>Object.prototype\<close>), and let the factory return a truthy value \<open>v\<close> for it. Then
  \<open>forBot(b)\<close> invokes \<open>createScope(b)\<close> once, stores \<open>v\<close> and returns it; after any further
  calls \<open>bs\<close> (for \<open>b\<close> or for other ids) \<open>forBot(b)\<close> returns the same \<open>v\<close> and changes
  nothing, and the trace holds exactly one more \<open>createScope(b)\<close> than before the first
  call. For an id \<open>b' \<noteq> b\<close>, \<open>forBot(b')\<close> neither reads nor changes the entry of \<open>b\<close>: the
  two ids get the instances the factory made for each, distinct whenever the factory's
  results are.
\<close>

theorem forBot_creates_once_then_returns_stored:
  assumes "\<not> truthy (scopes_get scopes b)"
      and "createScope b (mach s) = (Ok v, m)"
      and "truthy v"
  shows "forBot createScope b (scopes, s) =
           (Ok v, scopes(b \<mapsto> v), \<lparr>mach = m, trace = trace s @ [CreateScope b]\<rparr>)
       \<and> (\<forall>bs. let st = forBot_each createScope bs
                          (scopes(b \<mapsto> v), \<lparr>mach = m, trace = trace s @ [CreateScope b]\<rparr>)
               in forBot createScope b st = (Ok v, st)
                \<and> count_list (trace (snd st)) (CreateScope b)
                    = Suc (count_list (trace s) (CreateScope b)))
       \<and> (\<forall>b' x sc s'. b' \<noteq> b \<longrightarrow>
              fst (forBot createScope b' (sc(b := x), s')) = fst (forBot createScope b' (sc, s'))
            \<and> fst (snd (forBot createScope b' (sc, s'))) b = sc b)"
proof (intro conjI allI impI)
  let ?s1 = "\<lparr>mach = m, trace = trace s @ [CreateScope b]\<rparr>"
  show "forBot createScope b (scopes, s) = (Ok v, scopes(b \<mapsto> v), ?s1)"
    using assms(1,2) by (rule forBot_miss)
  fix bs
  obtain sc2 s2 where st: "forBot_each createScope bs (scopes(b \<mapsto> v), ?s1) = (sc2, s2)"
    by (metis surj_pair)
  have kept: "sc2 b = Some v \<and> count_list (trace s2) (CreateScope b)
                = count_list (trace ?s1) (CreateScope b)"
    using forBot_each_kept[of "scopes(b \<mapsto> v)" b v createScope bs ?s1] assms(3) st by simp
  show "let st = forBot_each createScope bs (scopes(b \<mapsto> v), ?s1)
        in forBot createScope b st = (Ok v, st)
         \<and> count_list (trace (snd st)) (CreateScope b) = Suc (count_list (trace s) (CreateScope b))"
    using kept st forBot_hit[of sc2 b v createScope s2] assms(3) by simp
next
  fix b' :: string and x sc and s' :: "'a state"
  assume "b' \<noteq> b"
  then show "fst (forBot createScope b' (sc(b := x), s')) = fst (forBot createScope b' (sc, s'))"
    by (rule forBot_reads_own_entry_only)
next
  fix b' :: string and x :: "jsval option" and sc and s' :: "'a state"
  assume "b' \<noteq> b"
  then show "fst (snd (forBot createScope b' (sc, s'))) b = sc b"
    using forBot_entry_kept[of b' b sc createScope s'] by simp
qed

text \<open>The theorem at a concrete input: a factory that builds a new object per call, a new
  service, tenant \<open>bot-a\<close> first, then \<open>bot-b\<close> and \<open>bot-a\<close> again.\<close>

theorem forBot_creates_once_witness:
  "\<not> truthy (scopes_get Map.empty ''bot-a'')
   \<and> new_object_factory ''bot-a'' (mach fresh_state) = (Ok (JRef 0), ([[(''botId'', JStr ''bot-a'')]], ()))
   \<and> truthy (JRef 0)
   \<and> fst (forBot new_object_factory ''bot-a'' (Map.empty, fresh_state)) = Ok (JRef 0)
   \<and> fst (forBot new_object_factory ''bot-a''
        (forBot_each new_object_factory [''bot-b'', ''bot-a'']
           (snd (forBot new_object_factory ''bot-a'' (Map.empty, fresh_state))))) = Ok (JRef 0)
   \<and> fst (forBot new_object_factory ''bot-b''
        (snd (forBot new_object_factory ''bot-a'' (Map.empty, fresh_state)))) = Ok (JRef 1)"
proof -
  have miss: "\<not> truthy (scopes_get Map.empty ''bot-a'')"
    by (simp add: scopes_get_def object_prototype_def object_prototype_names_def)
  have made: "new_object_factory ''bot-a'' (mach fresh_state)
                = (Ok (JRef 0), ([[(''botId'', JStr ''bot-a'')]], ()))"
    by (simp add: new_object_factory_def fresh_state_def)
  have tv: "truthy (JRef 0)" by simp
  note main = forBot_creates_once_then_returns_stored[where createScope = new_object_factory
      and scopes = Map.empty and s = fresh_state, OF miss made tv]
  have first: "forBot new_object_factory ''bot-a'' (Map.empty, fresh_state) =
      (Ok (JRef 0), [''bot-a'' \<mapsto> JRef 0],
       \<lparr>mach = ([[(''botId'', JStr ''bot-a'')]], ()), trace = trace fresh_state @ [CreateScope ''bot-a'']\<rparr>)"
    using main by simp
  have again: "fst (forBot new_object_factory ''bot-a''
        (forBot_each new_object_factory [''bot-b'', ''bot-a'']
           (snd (forBot new_object_factory ''bot-a'' (Map.empty, fresh_state))))) = Ok (JRef 0)"
    using main[THEN conjunct2, THEN conjunct1, rule_format, of "[''bot-b'', ''bot-a'']"] first
    by (simp add: Let_def)
  have other: "fst (forBot new_object_factory ''bot-b''
        (snd (forBot new_object_factory ''bot-a'' (Map.empty, fresh_state)))) = Ok (JRef 1)"
    unfolding first
    by (simp add: forBot_def scopes_get_def object_prototype_def object_prototype_names_def
          call_def new_object_factory_def Let_def)
  show ?thesis using miss made tv first again other by simp
qed

text \<open>
  Claim C1 as stated fails in three ways. A factory that returns \<open>0\<close> is invoked again by
  the second \<open>forBot('bot-a')\<close>; a factory that hands out one shared object gives
  \<open>bot-a\<close> and \<open>bot-b\<close> the same instance; and \<open>forBot('constructor')\<close> returns the function
  inherited from \<open>Object.prototype\<close> without invoking the factory or storing anything.
\<close>

theorem forBot_claim_counterexample:
  "trace (snd (forBot_each zero_factory [''bot-a'', ''bot-a''] (Map.empty, fresh_state)))
     = [CreateScope ''bot-a'', CreateScope ''bot-a'']
   \<and> fst (forBot shared_factory ''bot-b''
            (snd (forBot shared_factory ''bot-a'' (Map.empty, one_object_state))))
     = fst (forBot shared_factory ''bot-a'' (Map.empty, one_object_state))
   \<and> forBot shared_factory ''constructor'' (Map.empty, one_object_state)
     = (Ok (JBuiltin ''constructor''), Map.empty, one_object_state)"
  by (simp add: forBot_def scopes_get_def object_prototype_def object_prototype_names_def
        call_def zero_factory_def shared_factory_def fresh_state_def one_object_state_def Let_def)

text \<open>
  Claim C10, as amended. If the read \<open>this.scopes[b]\<close> is falsy and \<open>createScope(b)\<close> returns
  a falsy value \<open>v\<close>, then \<open>forBot(b)\<close> returns \<open>v\<close> and writes it to \<open>scopes[b]\<close> like any other
  value; the stored falsy value counts as a miss, so after any calls for other ids the
  entry is still \<open>v\<close> and the next \<open>forBot(b)\<close> invokes \<open>createScope(b)\<close> again.
\<close>

theorem forBot_falsy_scope_is_created_again:
  assumes "\<not> truthy (scopes_get scopes b)"
      and "createScope b (mach s) = (Ok v, m)"
      and "\<not> truthy v"
  shows "forBot createScope b (scopes, s) =
           (Ok v, scopes(b \<mapsto> v), \<lparr>mach = m, trace = trace s @ [CreateScope b]\<rparr>)
       \<and> (\<forall>bs. b \<notin> set bs \<longrightarrow>
            (let st = forBot_each createScope bs
                        (scopes(b \<mapsto> v), \<lparr>mach = m, trace = trace s @ [CreateScope b]\<rparr>)
             in fst st b = Some v
              \<and> trace (snd (snd (forBot createScope b st))) = trace (snd st) @ [CreateScope b]))"
proof (intro conjI allI impI)
  let ?s1 = "\<lparr>mach = m, trace = trace s @ [CreateScope b]\<rparr>"
  show "forBot createScope b (scopes, s) = (Ok v, scopes(b \<mapsto> v), ?s1)"
    using assms(1,2) by (rule forBot_miss)
  fix bs
  assume nb: "b \<notin> set bs"
  obtain sc2 s2 where st: "forBot_each createScope bs (scopes(b \<mapsto> v), ?s1) = (sc2, s2)"
    by (metis surj_pair)
  have kept: "sc2 b = Some v"
    using forBot_each_other[OF nb, of createScope "scopes(b \<mapsto> v)" ?s1] st by simp
  then have "\<not> truthy (scopes_get sc2 b)"
    using assms(3) by (simp add: scopes_get_def)
  then have "trace (snd (snd (forBot createScope b (sc2, s2)))) = trace s2 @ [CreateScope b]"
    using forBot_trace[of createScope b sc2 s2] by simp
  then show "let st = forBot_each createScope bs (scopes(b \<mapsto> v), ?s1)
        in fst st b = Some v
         \<and> trace (snd (snd (forBot createScope b st))) = trace (snd st) @ [CreateScope b]"
    using kept st by simp
qed

text \<open>The theorem at a concrete input: the factory that returns \<open>0\<close>, tenant \<open>bot-a\<close>, then
  \<open>bot-b\<close>, then \<open>bot-a\<close> again.\<close>

theorem forBot_falsy_scope_witness:
  "\<not> truthy (scopes_get Map.empty ''bot-a'')
   \<and> zero_factory ''bot-a'' (mach fresh_state) = (Ok (JNum 0), ([], ()))
   \<and> \<not> truthy (JNum 0)
   \<and> ''bot-a'' \<notin> set [''bot-b'']
   \<and> fst (forBot zero_factory ''bot-a'' (Map.empty, fresh_state)) = Ok (JNum 0)
   \<and> trace (snd (snd (forBot zero_factory ''bot-a''
        (forBot_each zero_factory [''bot-b'']
           (snd (forBot zero_factory ''bot-a'' (Map.empty, fresh_state)))))))
      = [CreateScope ''bot-a'', CreateScope ''bot-b'', CreateScope ''bot-a'']"
proof -
  have miss: "\<not> truthy (scopes_get Map.empty ''bot-a'')"
    by (simp add: scopes_get_def object_prototype_def object_prototype_names_def)
  have made: "zero_factory ''bot-a'' (mach fresh_state) = (Ok (JNum 0), ([], ()))"
    by (simp add: zero_factory_def fresh_state_def)
  have fv: "\<not> truthy (JNum 0)" by simp
  note main = forBot_falsy_scope_is_created_again[where createScope = zero_factory
      and scopes = Map.empty and s = fresh_state, OF miss made fv]
  have first: "forBot zero_factory ''bot-a'' (Map.empty, fresh_state) =
      (Ok (JNum 0), [''bot-a'' \<mapsto> JNum 0],
       \<lparr>mach = ([], ()), trace = trace fresh_state @ [CreateScope ''bot-a'']\<rparr>)"
    using main by simp
  have mid: "trace (snd (forBot_each zero_factory [''bot-b'']
           (snd (forBot zero_factory ''bot-a'' (Map.empty, fresh_state)))))
         = [CreateScope ''bot-a'', CreateScope ''bot-b'']"
    unfolding first
    by (simp add: forBot_def scopes_get_def object_prototype_def object_prototype_names_def
          call_def zero_factory_def fresh_state_def Let_def)
  have again: "trace (snd (snd (forBot zero_factory ''bot-a''
        (forBot_each zero_factory [''bot-b'']
           (snd (forBot zero_factory ''bot-a'' (Map.empty, fresh_state)))))))
      = [CreateScope ''bot-a'', CreateScope ''bot-b'', CreateScope ''bot-a'']"
    using main[THEN conjunct2, rule_format, of "[''bot-b'']"] first mid by (simp add: Let_def)
  show ?thesis using miss made fv first again by simp
qed

text \<open>Claim C10 as stated says that the falsy value is not stored. It is: after
  \<open>forBot('bot-a')\<close> with the factory that returns \<open>0\<close>, \<open>scopes['bot-a']\<close> is \<open>0\<close>.\<close>

theorem forBot_falsy_scope_stored_counterexample:
  "fst (snd (forBot zero_factory ''bot-a'' (Map.empty, fresh_state))) ''bot-a'' = Some (JNum 0)"
  by (simp add: forBot_def scopes_get_def object_prototype_def object_prototype_names_def
        call_def zero_factory_def fresh_state_def Let_def)

section \<open>Properties of the listeners\<close>

lemma call_eq:
  "call ev f s = (fst (f (mach s)), \<lparr>mach = snd (f (mach s)), trace = trace s @ [ev]\<rparr>)"
  by (simp add: call_def split: prod.split)

lemma await_eq:
  "await ch f s = (fst (f s), (snd (f s))\<lparr>mach := meanwhile ch (mach (snd (f s)))\<rparr>)"
  by (simp add: await_def split: prod.split)

lemma receive_trace:
  "\<exists>es. trace (snd (receive ch ctx pl s)) = trace s @ Receive ctx pl # es \<and> filter is_post es = []"
  by (auto simp: receive_def Let_def call_eq await_eq note_event_def split: res.splits prod.splits)


text \<open>The paths of the program text: which are plain names, which are deep, and the keys
  of the deep ones.\<close>

lemma plain_paths:
  "reIsPlainProp ''text''" "reIsPlainProp ''channel''" "reIsPlainProp ''user''"
  by (simp_all add: reIsPlainProp_def word_char_def)

lemma deep_paths:
  "\<not> reIsPlainProp ''actions[0].action_id'' \<and> reIsDeepProp ''actions[0].action_id''"
  "\<not> reIsPlainProp ''actions[0].text.text'' \<and> reIsDeepProp ''actions[0].text.text''"
  "\<not> reIsPlainProp ''actions[0].value'' \<and> reIsDeepProp ''actions[0].value''"
  "\<not> reIsPlainProp ''files.0.name'' \<and> reIsDeepProp ''files.0.name''"
  "\<not> reIsPlainProp ''files.0.title'' \<and> reIsDeepProp ''files.0.title''"
  "\<not> reIsPlainProp ''channel.id'' \<and> reIsDeepProp ''channel.id''"
  "\<not> reIsPlainProp ''user.id'' \<and> reIsDeepProp ''user.id''"
  by (simp_all add: reIsPlainProp_def reIsDeepProp_def word_char_def)

lemma path_keys:
  "stringToPath ''actions[0].action_id'' = [''actions'', ''0'', ''action_id'']"
  "stringToPath ''actions[0].text.text'' = [''actions'', ''0'', ''text'', ''text'']"
  "stringToPath ''actions[0].value'' = [''actions'', ''0'', ''value'']"
  "stringToPath ''files.0.name'' = [''files'', ''0'', ''name'']"
  "stringToPath ''files.0.title'' = [''files'', ''0'', ''title'']"
  "stringToPath ''channel.id'' = [''channel'', ''id'']"
  "stringToPath ''user.id'' = [''user'', ''id'']"
  by (simp_all add: stringToPath_def)

text \<open>The three ways \<open>_.get\<close> reads a path: a plain name is a property read; a deep path
  is a property read of the whole string when the object has such a property, and the
  walk along its keys otherwise.\<close>

lemma lodash_get_plain:
  assumes "reIsPlainProp k"
  shows "lodash_get h v k d = (let r = get_prop h v k in if r = JUndefined then d else r)"
  using assms by (auto simp: lodash_get_def baseGet_def castPath_def isKey_def Let_def get_prop_def)

lemma lodash_get_whole_key:
  assumes "has_property h v path"
  shows "lodash_get h v path d = (let r = get_prop h v path in if r = JUndefined then d else r)"
proof -
  have "v \<noteq> JUndefined \<and> v \<noteq> JNull"
    using assms by (auto simp: has_property_def)
  then show ?thesis
    using assms by (simp add: lodash_get_def baseGet_def castPath_def isKey_def Let_def)
qed

lemma lodash_get_nested:
  assumes "\<not> reIsPlainProp path \<and> reIsDeepProp path"
      and "\<not> has_property h v path"
      and "stringToPath path = k # ks"
  shows "lodash_get h v path d =
           (let r = baseGet_loop h v (k # ks) in if r = JUndefined then d else r)"
  using assms by (auto simp: lodash_get_def baseGet_def castPath_def isKey_def Let_def)






lemma get_prop_of_missing:
  "get_prop h JUndefined k = JUndefined" "get_prop h JNull k = JUndefined"
  by (simp_all add: get_prop_def)

text \<open>
  Claim C7. A message event whose \<open>subtype\<close> is one of \<open>bot_message\<close>, \<open>message_deleted\<close>,
  \<open>message_changed\<close>, or whose \<open>bot_id\<close> is truthy (a non-empty string is), is dropped: the
  listener returns without calling anything, so \<open>receive\<close> is not invoked and no message
  is created.
\<close>

theorem on_message_discards_filtered_events:
  assumes "get_prop (fst (mach s)) p ''subtype'' \<in> set (map JStr discardedSubtypes)
           \<or> truthy (get_prop (fst (mach s)) p ''bot_id'')"
  shows "on_message ch p s = (Ok (), s)"
proof -
  have "p \<noteq> JUndefined \<and> p \<noteq> JNull"
    using assms by (auto simp: get_prop_of_missing)
  then show ?thesis
    using assms by (auto simp: on_message_def prop_read_def Let_def)
qed

text \<open>The theorem at an edited message and at a message with a \<open>bot_id\<close>.\<close>

theorem on_message_discards_witness:
  "get_prop (fst (mach (message_state [(''text'', JStr ''hi''), (''subtype'', JStr ''message_changed'')])))
      (JRef 0) ''subtype'' \<in> set (map JStr discardedSubtypes)
   \<and> on_message demo_channel (JRef 0)
        (message_state [(''text'', JStr ''hi''), (''subtype'', JStr ''message_changed'')])
      = (Ok (), message_state [(''text'', JStr ''hi''), (''subtype'', JStr ''message_changed'')])
   \<and> truthy (get_prop (fst (mach (message_state [(''text'', JStr ''hi''), (''bot_id'', JStr ''B1'')])))
      (JRef 0) ''bot_id'')
   \<and> on_message demo_channel (JRef 0)
        (message_state [(''text'', JStr ''hi''), (''bot_id'', JStr ''B1'')])
      = (Ok (), message_state [(''text'', JStr ''hi''), (''bot_id'', JStr ''B1'')])"
proof -
  have a: "get_prop (fst (mach (message_state [(''text'', JStr ''hi''), (''subtype'', JStr ''message_changed'')])))
      (JRef 0) ''subtype'' \<in> set (map JStr discardedSubtypes)"
    by (simp add: message_state_def get_prop_def discardedSubtypes_def)
  have b: "truthy (get_prop (fst (mach (message_state [(''text'', JStr ''hi''), (''bot_id'', JStr ''B1'')])))
      (JRef 0) ''bot_id'')"
    by (simp add: message_state_def get_prop_def)
  show ?thesis
    using a b on_message_discards_filtered_events[OF disjI1, OF a, of demo_channel]
      on_message_discards_filtered_events[OF disjI2, OF b, of demo_channel]
    by simp
qed

lemma truthy_js_and: "truthy (js_and a b) = (truthy a \<and> truthy b)"
  by (simp add: js_and_def)

lemma has_length_string: "truthy (has_length h (JStr x)) = (x \<noteq> [])"
  by (auto simp: has_length_def truthy_js_and get_prop_def)

lemma has_length_missing: "\<not> truthy (has_length h JUndefined)" "\<not> truthy (has_length h JNull)"
  by (simp_all add: has_length_def truthy_js_and)

lemma has_length_truthy: "truthy (has_length h x) \<Longrightarrow> truthy x"
  by (simp add: has_length_def truthy_js_and)

lemma find_first_of_three:
  assumes "\<And>x. truthy (f x) \<Longrightarrow> truthy x"
  shows "js_or (lodash_find f [a, b, c]) d =
           (if truthy (f a) then a else if truthy (f b) then b else if truthy (f c) then c else d)"
  using assms[of a] assms[of b] assms[of c] by (simp add: lodash_find_def js_or_def)

lemma message_text_chain:
  "message_text h p =
     (if truthy (has_length h (lodash_get h p ''text'' JUndefined))
      then lodash_get h p ''text'' JUndefined
      else if truthy (has_length h (lodash_get h p ''files.0.name'' JUndefined))
           then lodash_get h p ''files.0.name'' JUndefined
      else if truthy (has_length h (lodash_get h p ''files.0.title'' JUndefined))
           then lodash_get h p ''files.0.title'' JUndefined
      else JStr ''N/A'')"
proof -
  have "lodash_at h p [''text'', ''files.0.name'', ''files.0.title'']
          = [lodash_get h p ''text'' JUndefined, lodash_get h p ''files.0.name'' JUndefined,
             lodash_get h p ''files.0.title'' JUndefined]"
    unfolding lodash_at_def by (simp only: list.map)
  then show ?thesis
    unfolding message_text_def
    using find_first_of_three[of "has_length h", OF has_length_truthy] by (simp only:)
qed

lemma lodash_get_text: "lodash_get h p ''text'' JUndefined = get_prop h p ''text''"
  by (simp add: lodash_get_plain[OF plain_paths(1)] Let_def)

lemma lodash_get_deep_either:
  assumes "\<not> reIsPlainProp path \<and> reIsDeepProp path" and "stringToPath path = k # ks"
  shows "lodash_get h p path JUndefined =
           (if has_property h p path then get_prop h p path else baseGet_loop h p (k # ks))"
proof (cases "has_property h p path")
  case True
  then show ?thesis by (simp add: lodash_get_whole_key Let_def)
next
  case False
  then show ?thesis using lodash_get_nested[OF assms(1) False assms(2)] by (simp add: Let_def)
qed

text \<open>
  Claim C8, as amended. The text of an inbound message is the first of the three values
  that \<open>_.at\<close> reads for \<open>text\<close>, \<open>files.0.name\<close> and \<open>files.0.title\<close> that passes the test
  \<open>x && x.length\<close>, and \<open>'N/A'\<close> when none does. A string passes the test exactly when it
  is not empty; \<open>undefined\<close> and \<open>null\<close> do not. The first value is the event's \<open>text\<close>.
  The second is the name of the first attachment (\<open>files\<close>, then \<open>0\<close>, then \<open>name\<close>) unless
  the event itself has a property named \<open>files.0.name\<close>, which is then read in its place;
  likewise the third and \<open>files.0.title\<close>. So with an empty or missing text and a
  non-empty second value the text is that value, and with all three empty or missing it
  is \<open>'N/A'\<close>. For an event that is not discarded this text is what the listener hands to
  \<open>receive\<close>.
\<close>

theorem message_text_is_first_nonempty_candidate:
  "let h = fst (mach s);
       t = lodash_get h p ''text'' JUndefined;
       n = lodash_get h p ''files.0.name'' JUndefined;
       ti = lodash_get h p ''files.0.title'' JUndefined
   in message_text h p =
        (if truthy (has_length h t) then t
         else if truthy (has_length h n) then n
         else if truthy (has_length h ti) then ti
         else JStr ''N/A'')
    \<and> (\<forall>x. truthy (has_length h (JStr x)) = (x \<noteq> []))
    \<and> \<not> truthy (has_length h JUndefined) \<and> \<not> truthy (has_length h JNull)
    \<and> t = get_prop h p ''text''
    \<and> n = (if has_property h p ''files.0.name'' then get_prop h p ''files.0.name''
           else baseGet_loop h p [''files'', ''0'', ''name''])
    \<and> ti = (if has_property h p ''files.0.title'' then get_prop h p ''files.0.title''
            else baseGet_loop h p [''files'', ''0'', ''title''])
    \<and> (t \<in> {JStr [], JUndefined, JNull} \<and> (\<exists>x. n = JStr x \<and> x \<noteq> []) \<longrightarrow> message_text h p = n)
    \<and> (t \<in> {JStr [], JUndefined, JNull} \<and> n \<in> {JStr [], JUndefined, JNull}
         \<and> ti \<in> {JStr [], JUndefined, JNull} \<longrightarrow> message_text h p = JStr ''N/A'')
    \<and> (p \<noteq> JUndefined \<and> p \<noteq> JNull
         \<and> get_prop h p ''subtype'' \<notin> set (map JStr discardedSubtypes)
         \<and> \<not> truthy (get_prop h p ''bot_id'') \<longrightarrow>
         (\<exists>es. trace (snd (on_message ch p s))
                 = trace s @ Receive p (TextMessage (message_text h p)) # es))"
proof -
  define h where "h = fst (mach s)"
  have sent: "\<exists>es. trace (snd (on_message ch p s))
                 = trace s @ Receive p (TextMessage (message_text h p)) # es"
    if "p \<noteq> JUndefined \<and> p \<noteq> JNull"
       "get_prop h p ''subtype'' \<notin> set (map JStr discardedSubtypes)"
       "\<not> truthy (get_prop h p ''bot_id'')"
  proof -
    have "on_message ch p s = await ch (receive ch p (TextMessage (message_text h p))) s"
      using that by (simp add: on_message_def prop_read_def Let_def h_def)
    then show ?thesis
      using receive_trace[of ch p "TextMessage (message_text h p)" s] by (auto simp: await_eq)
  qed
  have empty: "\<not> truthy (has_length h x)" if "x \<in> {JStr [], JUndefined, JNull}" for x
    using that has_length_string[of h "[]"] has_length_missing[of h] by auto
  define t where "t = lodash_get h p ''text'' JUndefined"
  define n where "n = lodash_get h p ''files.0.name'' JUndefined"
  define ti where "ti = lodash_get h p ''files.0.title'' JUndefined"
  have chain: "message_text h p =
        (if truthy (has_length h t) then t
         else if truthy (has_length h n) then n
         else if truthy (has_length h ti) then ti
         else JStr ''N/A'')"
    unfolding t_def n_def ti_def by (rule message_text_chain)
  have c2: "\<forall>x. truthy (has_length h (JStr x)) = (x \<noteq> [])"
    by (simp add: has_length_string)
  have c3: "\<not> truthy (has_length h JUndefined) \<and> \<not> truthy (has_length h JNull)"
    by (simp add: has_length_missing)
  have r1: "t = get_prop h p ''text''"
    unfolding t_def by (rule lodash_get_text)
  have r2: "n = (if has_property h p ''files.0.name'' then get_prop h p ''files.0.name''
           else baseGet_loop h p [''files'', ''0'', ''name''])"
    unfolding n_def by (rule lodash_get_deep_either[OF deep_paths(4) path_keys(4)])
  have r3: "ti = (if has_property h p ''files.0.title'' then get_prop h p ''files.0.title''
            else baseGet_loop h p [''files'', ''0'', ''title''])"
    unfolding ti_def by (rule lodash_get_deep_either[OF deep_paths(5) path_keys(5)])
  have c4: "t \<in> {JStr [], JUndefined, JNull} \<and> (\<exists>x. n = JStr x \<and> x \<noteq> []) \<longrightarrow> message_text h p = n"
  proof
    assume a: "t \<in> {JStr [], JUndefined, JNull} \<and> (\<exists>x. n = JStr x \<and> x \<noteq> [])"
    then have "\<not> truthy (has_length h t)" using empty by blast
    moreover have "truthy (has_length h n)" using a has_length_string by blast
    ultimately show "message_text h p = n" using chain by simp
  qed
  have c5: "t \<in> {JStr [], JUndefined, JNull} \<and> n \<in> {JStr [], JUndefined, JNull}
         \<and> ti \<in> {JStr [], JUndefined, JNull} \<longrightarrow> message_text h p = JStr ''N/A''"
  proof
    assume a: "t \<in> {JStr [], JUndefined, JNull} \<and> n \<in> {JStr [], JUndefined, JNull}
         \<and> ti \<in> {JStr [], JUndefined, JNull}"
    then have "\<not> truthy (has_length h t)" "\<not> truthy (has_length h n)" "\<not> truthy (has_length h ti)"
      using empty by blast+
    then show "message_text h p = JStr ''N/A''" using chain by simp
  qed
  have c6: "p \<noteq> JUndefined \<and> p \<noteq> JNull
         \<and> get_prop h p ''subtype'' \<notin> set (map JStr discardedSubtypes)
         \<and> \<not> truthy (get_prop h p ''bot_id'') \<longrightarrow>
         (\<exists>es. trace (snd (on_message ch p s))
                 = trace s @ Receive p (TextMessage (message_text h p)) # es)"
    using sent by blast
  show ?thesis
    unfolding Let_def h_def[symmetric] t_def[symmetric] n_def[symmetric] ti_def[symmetric]
    using chain c2 c3 r1 r2 r3 c4 c5 c6 by blast
qed

lemma file_event_reads:
  "lodash_get (fst (mach (message_state file_event))) (JRef 0) ''text'' JUndefined = JStr []"
  "lodash_get (fst (mach (message_state file_event))) (JRef 0) ''files.0.name'' JUndefined
     = JStr ''report.pdf''"
  "lodash_get (fst (mach (message_state keyed_file_event))) (JRef 0) ''text'' JUndefined = JStr []"
  "lodash_get (fst (mach (message_state keyed_file_event))) (JRef 0) ''files.0.name'' JUndefined
     = JStr ''direct.txt''"
  "lodash_get (fst (mach (message_state []))) (JRef 0) ''text'' JUndefined = JUndefined"
  "lodash_get (fst (mach (message_state []))) (JRef 0) ''files.0.name'' JUndefined = JUndefined"
  "lodash_get (fst (mach (message_state []))) (JRef 0) ''files.0.title'' JUndefined = JUndefined"
  unfolding lodash_get_text lodash_get_deep_either[OF deep_paths(4) path_keys(4)]
    lodash_get_deep_either[OF deep_paths(5) path_keys(5)]
  by (simp_all add: message_state_def file_event_def keyed_file_event_def get_prop_def
        has_property_def object_prototype_def object_prototype_names_def)

text \<open>
  Claim C8 as stated fails. The event has an empty \<open>text\<close> and a first attachment named
  \<open>report.pdf\<close>, and also a property of its own that is named \<open>files.0.name\<close> and holds
  \<open>direct.txt\<close>. It is not discarded, and the text that the listener extracts and hands
  to \<open>receive\<close> is \<open>direct.txt\<close>, not the name of the attachment.
\<close>

theorem message_text_own_path_property_counterexample:
  "get_prop (fst (mach (message_state keyed_file_event))) (JRef 0) ''text'' = JStr []
   \<and> get_prop (fst (mach (message_state keyed_file_event)))
       (get_prop (fst (mach (message_state keyed_file_event)))
          (get_prop (fst (mach (message_state keyed_file_event))) (JRef 0) ''files'') ''0'')
       ''name'' = JStr ''report.pdf''
   \<and> get_prop (fst (mach (message_state keyed_file_event))) (JRef 0) ''subtype''
        \<notin> set (map JStr discardedSubtypes)
   \<and> \<not> truthy (get_prop (fst (mach (message_state keyed_file_event))) (JRef 0) ''bot_id'')
   \<and> message_text (fst (mach (message_state keyed_file_event))) (JRef 0) = JStr ''direct.txt''
   \<and> trace (snd (on_message demo_channel (JRef 0) (message_state keyed_file_event)))
       = [Receive (JRef 0) (TextMessage (JStr ''direct.txt'')),
          ConvRecent ''bot-a'' (JStr ''C1''),
          MsgCreate ''bot-a'' ''conv-1'' (TextMessage (JStr ''direct.txt'')) (JStr ''U1'')]"
proof -
  let ?s = "message_state keyed_file_event"
  have a: "get_prop (fst (mach ?s)) (JRef 0) ''text'' = JStr []"
    by (simp add: message_state_def keyed_file_event_def get_prop_def)
  have b: "get_prop (fst (mach ?s)) (get_prop (fst (mach ?s))
             (get_prop (fst (mach ?s)) (JRef 0) ''files'') ''0'') ''name'' = JStr ''report.pdf''"
    by (simp add: message_state_def keyed_file_event_def get_prop_def)
  have c: "get_prop (fst (mach ?s)) (JRef 0) ''subtype'' \<notin> set (map JStr discardedSubtypes)"
    by (simp add: message_state_def keyed_file_event_def get_prop_def discardedSubtypes_def
          object_prototype_def object_prototype_names_def)
  have d: "\<not> truthy (get_prop (fst (mach ?s)) (JRef 0) ''bot_id'')"
    by (simp add: message_state_def keyed_file_event_def get_prop_def
          object_prototype_def object_prototype_names_def)
  have e: "message_text (fst (mach ?s)) (JRef 0) = JStr ''direct.txt''"
    unfolding message_text_chain file_event_reads
    by (simp add: has_length_string)
  have np: "\<not> has_property (fst (mach ?s)) (JRef 0) ''channel.id''"
           "\<not> has_property (fst (mach ?s)) (JRef 0) ''user.id''"
    by (simp_all add: has_property_def message_state_def keyed_file_event_def
          object_prototype_names_def)
  have ids: "lodash_get (fst (mach ?s)) (JRef 0) ''channel.id'' JUndefined = JUndefined"
            "lodash_get (fst (mach ?s)) (JRef 0) ''user.id'' JUndefined = JUndefined"
            "lodash_get (fst (mach ?s)) (JRef 0) ''channel'' JUndefined = JStr ''C1''"
            "lodash_get (fst (mach ?s)) (JRef 0) ''user'' JUndefined = JStr ''U1''"
    unfolding lodash_get_nested[OF deep_paths(6) np(1) path_keys(6)]
      lodash_get_nested[OF deep_paths(7) np(2) path_keys(7)]
      lodash_get_plain[OF plain_paths(2)] lodash_get_plain[OF plain_paths(3)]
    by (simp_all add: message_state_def keyed_file_event_def get_prop_def Let_def
          index_of_key_def digit_of_def object_prototype_def object_prototype_names_def)
  have f: "trace (snd (on_message demo_channel (JRef 0) ?s))
       = [Receive (JRef 0) (TextMessage (JStr ''direct.txt'')),
          ConvRecent ''bot-a'' (JStr ''C1''),
          MsgCreate ''bot-a'' ''conv-1'' (TextMessage (JStr ''direct.txt'')) (JStr ''U1'')]"
    using c d e ids
    by (simp add: on_message_def prop_read_def Let_def receive_def await_def call_def
          note_event_def js_or_def demo_channel_def demo_conversation_def)
       (simp add: message_state_def)
  show ?thesis
    by (intro conjI) (fact a b c d e f)+
qed

text \<open>The theorem at an event with an empty text and a file named \<open>report.pdf\<close>, at the
  same event with a property \<open>files.0.name\<close> of its own, and at an event with no property
  at all.\<close>

theorem message_text_witness:
  "lodash_get (fst (mach (message_state file_event))) (JRef 0) ''text'' JUndefined
      \<in> {JStr [], JUndefined, JNull}
   \<and> \<not> has_property (fst (mach (message_state file_event))) (JRef 0) ''files.0.name''
   \<and> baseGet_loop (fst (mach (message_state file_event))) (JRef 0) [''files'', ''0'', ''name'']
       = JStr ''report.pdf''
   \<and> message_text (fst (mach (message_state file_event))) (JRef 0) = JStr ''report.pdf''
   \<and> has_property (fst (mach (message_state keyed_file_event))) (JRef 0) ''files.0.name''
   \<and> message_text (fst (mach (message_state keyed_file_event))) (JRef 0) = JStr ''direct.txt''
   \<and> lodash_get (fst (mach (message_state []))) (JRef 0) ''files.0.title'' JUndefined = JUndefined
   \<and> message_text (fst (mach (message_state []))) (JRef 0) = JStr ''N/A''
   \<and> get_prop (fst (mach (message_state file_event))) (JRef 0) ''subtype''
        \<notin> set (map JStr discardedSubtypes)
   \<and> \<not> truthy (get_prop (fst (mach (message_state file_event))) (JRef 0) ''bot_id'')
   \<and> (\<exists>es. trace (snd (on_message demo_channel (JRef 0) (message_state file_event)))
              = Receive (JRef 0) (TextMessage (JStr ''report.pdf'')) # es)"
proof -
  have a: "lodash_get (fst (mach (message_state file_event))) (JRef 0) ''text'' JUndefined
             \<in> {JStr [], JUndefined, JNull}"
    by (simp add: file_event_reads)
  have np: "\<not> has_property (fst (mach (message_state file_event))) (JRef 0) ''files.0.name''"
    by (simp add: has_property_def message_state_def file_event_def object_prototype_names_def)
  have b: "baseGet_loop (fst (mach (message_state file_event))) (JRef 0) [''files'', ''0'', ''name'']
       = JStr ''report.pdf''"
    by (simp add: message_state_def file_event_def get_prop_def)
  have hp: "has_property (fst (mach (message_state keyed_file_event))) (JRef 0) ''files.0.name''"
    by (simp add: has_property_def message_state_def keyed_file_event_def)
  note first = message_text_is_first_nonempty_candidate[of "message_state file_event" "JRef 0"
      demo_channel, unfolded Let_def]
  note keyed = message_text_is_first_nonempty_candidate[of "message_state keyed_file_event"
      "JRef 0" demo_channel, unfolded Let_def]
  note none = message_text_is_first_nonempty_candidate[of "message_state []" "JRef 0"
      demo_channel, unfolded Let_def]
  have d: "message_text (fst (mach (message_state file_event))) (JRef 0) = JStr ''report.pdf''"
    using first[THEN conjunct1] by (simp add: file_event_reads has_length_string)
  have k: "message_text (fst (mach (message_state keyed_file_event))) (JRef 0) = JStr ''direct.txt''"
    using keyed[THEN conjunct1] by (simp add: file_event_reads has_length_string)
  have e: "message_text (fst (mach (message_state []))) (JRef 0) = JStr ''N/A''"
    using none[THEN conjunct1] by (simp add: file_event_reads has_length_missing)
  have f: "get_prop (fst (mach (message_state file_event))) (JRef 0) ''subtype''
        \<notin> set (map JStr discardedSubtypes)"
    by (simp add: message_state_def file_event_def get_prop_def discardedSubtypes_def
          object_prototype_def object_prototype_names_def)
  have g: "\<not> truthy (get_prop (fst (mach (message_state file_event))) (JRef 0) ''bot_id'')"
    by (simp add: message_state_def file_event_def get_prop_def
          object_prototype_def object_prototype_names_def)
  have p0: "JRef 0 \<noteq> JUndefined \<and> JRef 0 \<noteq> JNull" by simp
  have "\<exists>es. trace (snd (on_message demo_channel (JRef 0) (message_state file_event)))
              = trace (message_state file_event)
                @ Receive (JRef 0) (TextMessage (message_text (fst (mach (message_state file_event))) (JRef 0))) # es"
    using first p0 f g by blast
  then have i: "\<exists>es. trace (snd (on_message demo_channel (JRef 0) (message_state file_event)))
              = Receive (JRef 0) (TextMessage (JStr ''report.pdf'')) # es"
    unfolding d by (simp add: message_state_def)
  show ?thesis
    by (intro conjI) (fact a np b d hp k file_event_reads(7) e f g i)+
qed

section \<open>Properties of send\<close>

lemma renderers_asked_simps:
  "renderers_asked [] = []"
  "renderers_asked (RHandles r b # es) = (r, b) # renderers_asked es"
  "renderers_asked (RRender r # es) = renderers_asked es"
  "renderers_asked (SHandles x b # es) = renderers_asked es"
  "renderers_asked (SSend x # es) = renderers_asked es"
  "renderers_asked (ConvGet bt c # es) = renderers_asked es"
  by (simp_all add: renderers_asked_def map_filter_simps)

lemma renderers_asked_append:
  "renderers_asked (es @ es') = renderers_asked es @ renderers_asked es'"
  by (simp add: renderers_asked_def map_filter_def)

lemma renderers_run_simps:
  "renderers_run [] = []"
  "renderers_run (RHandles r b # es) = renderers_run es"
  "renderers_run (RRender r # es) = r # renderers_run es"
  "renderers_run (SHandles x b # es) = renderers_run es"
  "renderers_run (SSend x # es) = renderers_run es"
  "renderers_run (ConvGet bt c # es) = renderers_run es"
  by (simp_all add: renderers_run_def map_filter_simps)

lemma renderers_run_append:
  "renderers_run (es @ es') = renderers_run es @ renderers_run es'"
  by (simp add: renderers_run_def map_filter_def)

lemma senders_asked_simps:
  "senders_asked [] = []"
  "senders_asked (RHandles r b # es) = senders_asked es"
  "senders_asked (RRender r # es) = senders_asked es"
  "senders_asked (SHandles x b # es) = (x, b) # senders_asked es"
  "senders_asked (SSend x # es) = senders_asked es"
  "senders_asked (ConvGet bt c # es) = senders_asked es"
  by (simp_all add: senders_asked_def map_filter_simps)

lemma senders_asked_append:
  "senders_asked (es @ es') = senders_asked es @ senders_asked es'"
  by (simp add: senders_asked_def map_filter_def)

lemma senders_run_simps:
  "senders_run [] = []"
  "senders_run (RHandles r b # es) = senders_run es"
  "senders_run (RRender r # es) = senders_run es"
  "senders_run (SHandles x b # es) = senders_run es"
  "senders_run (SSend x # es) = x # senders_run es"
  "senders_run (ConvGet bt c # es) = senders_run es"
  by (simp_all add: senders_run_def map_filter_simps)

lemma senders_run_append:
  "senders_run (es @ es') = senders_run es @ senders_run es'"
  by (simp add: senders_run_def map_filter_def)

lemma render_loop_append:
  "render_loop ch (rs @ rs') ctx s =
     (case render_loop ch rs ctx s of
        (Threw e, s') \<Rightarrow> (Threw e, s')
      | (Ok ctx', s') \<Rightarrow> render_loop ch rs' ctx' s')"
  by (induction rs arbitrary: ctx s) (auto split: prod.splits res.splits)

lemma sender_loop_append:
  "sender_loop ch (xs @ xs') ctx s =
     (case sender_loop ch xs ctx s of
        (Threw e, s') \<Rightarrow> (Threw e, s')
      | (Ok u, s') \<Rightarrow> sender_loop ch xs' ctx s')"
  by (induction xs arbitrary: s) (auto split: prod.splits res.splits)

lemma render_loop_trace:
  "\<exists>es. trace (snd (render_loop ch rs ctx s)) = trace s @ es
      \<and> concat (map renderer_events (renderers_asked es)) = es
      \<and> prefix (map fst (renderers_asked es)) rs
      \<and> ((\<exists>c. fst (render_loop ch rs ctx s) = Ok c) \<longrightarrow> map fst (renderers_asked es) = rs)
      \<and> (rs \<noteq> [] \<longrightarrow> renderers_asked es \<noteq> []
            \<and> hd (renderers_asked es) = (hd rs, r_handles ch (hd rs) ctx (fst (mach s))))"
proof (induction rs arbitrary: ctx s)
  case Nil
  then show ?case by (simp add: renderers_asked_simps)
next
  case (Cons r rs)
  show ?case
  proof (cases "r_handles ch r ctx (fst (mach s))")
    case False
    let ?s1 = "note_event (RHandles r False) s"
    obtain es where es: "trace (snd (render_loop ch rs ctx ?s1)) = trace ?s1 @ es"
        "concat (map renderer_events (renderers_asked es)) = es"
        "prefix (map fst (renderers_asked es)) rs"
        "(\<exists>c. fst (render_loop ch rs ctx ?s1) = Ok c) \<longrightarrow> map fst (renderers_asked es) = rs"
      using Cons.IH[of ctx ?s1] by blast
    have loop: "render_loop ch (r # rs) ctx s = render_loop ch rs ctx ?s1"
      using False by simp
    have f1: "trace (snd (render_loop ch (r # rs) ctx s)) = trace s @ (RHandles r False # es)"
      using es(1) loop by (simp add: note_event_def)
    have f2: "concat (map renderer_events (renderers_asked (RHandles r False # es))) = RHandles r False # es"
      using es(2) by (simp add: renderers_asked_simps)
    have f3: "prefix (map fst (renderers_asked (RHandles r False # es))) (r # rs)"
      using es(3) by (simp add: renderers_asked_simps)
    have f4: "(\<exists>c. fst (render_loop ch (r # rs) ctx s) = Ok c) \<longrightarrow>
        map fst (renderers_asked (RHandles r False # es)) = r # rs"
      using es(4) loop by (simp add: renderers_asked_simps)
    have f5: "hd (renderers_asked (RHandles r False # es))
        = (hd (r # rs), r_handles ch (hd (r # rs)) ctx (fst (mach s)))"
      using False by (simp add: renderers_asked_simps)
    have f6: "renderers_asked (RHandles r False # es) \<noteq> []"
      by (simp add: renderers_asked_simps)
    show ?thesis
        by (rule exI[of _ "RHandles r False # es"]) (use f1 f2 f3 f4 f5 f6 in blast)
  next
    case True
    let ?s1 = "note_event (RHandles r True) s"
    obtain res s2 where cl: "call (RRender r) (r_render ch r ctx) ?s1 = (res, s2)"
      by (metis surj_pair)
    have tr2: "trace s2 = trace s @ [RHandles r True, RRender r]"
      using cl by (auto simp: call_eq note_event_def)
    show ?thesis
    proof (cases res)
      case (Threw e)
      have loop: "render_loop ch (r # rs) ctx s = (Threw e, s2)"
        using True cl Threw by simp
      have f1: "trace (snd (render_loop ch (r # rs) ctx s)) = trace s @ [RHandles r True, RRender r]"
        using loop tr2 by simp
      have f2: "concat (map renderer_events (renderers_asked [RHandles r True, RRender r])) = [RHandles r True, RRender r]"
        by (simp add: renderers_asked_simps)
      have f3: "prefix (map fst (renderers_asked [RHandles r True, RRender r])) (r # rs)"
        by (simp add: renderers_asked_simps)
      have f4: "\<not> (\<exists>c. fst (render_loop ch (r # rs) ctx s) = Ok c)"
        using loop by simp
      have f5: "hd (renderers_asked [RHandles r True, RRender r])
          = (hd (r # rs), r_handles ch (hd (r # rs)) ctx (fst (mach s)))"
        using True by (simp add: renderers_asked_simps)
      have f6: "renderers_asked [RHandles r True, RRender r] \<noteq> []"
        by (simp add: renderers_asked_simps)
      show ?thesis
        by (rule exI[of _ "[RHandles r True, RRender r]"]) (use f1 f2 f3 f4 f5 f6 in blast)
    next
      case (Ok c1)
      let ?c = "c1\<lparr>handlers := handlers c1 @ [''id'']\<rparr>"
      have loop: "render_loop ch (r # rs) ctx s = render_loop ch rs ?c s2"
        using True cl Ok by simp
      obtain es where es: "trace (snd (render_loop ch rs ?c s2)) = trace s2 @ es"
          "concat (map renderer_events (renderers_asked es)) = es"
          "prefix (map fst (renderers_asked es)) rs"
          "(\<exists>c. fst (render_loop ch rs ?c s2) = Ok c) \<longrightarrow> map fst (renderers_asked es) = rs"
        using Cons.IH[of ?c s2] by blast
      let ?es = "RHandles r True # RRender r # es"
      have f1: "trace (snd (render_loop ch (r # rs) ctx s)) = trace s @ ?es"
        using es(1) loop tr2 by simp
      have f2: "concat (map renderer_events (renderers_asked ?es)) = ?es"
        using es(2) by (simp add: renderers_asked_simps)
      have f3: "prefix (map fst (renderers_asked ?es)) (r # rs)"
        using es(3) by (simp add: renderers_asked_simps)
      have f4: "(\<exists>c. fst (render_loop ch (r # rs) ctx s) = Ok c) \<longrightarrow>
          map fst (renderers_asked ?es) = r # rs"
        using es(4) loop by (simp add: renderers_asked_simps)
      have f5: "hd (renderers_asked ?es)
          = (hd (r # rs), r_handles ch (hd (r # rs)) ctx (fst (mach s)))"
        using True by (simp add: renderers_asked_simps)
      have f6: "renderers_asked ?es \<noteq> []"
        by (simp add: renderers_asked_simps)
      show ?thesis
        by (rule exI[of _ "?es"]) (use f1 f2 f3 f4 f5 f6 in blast)
    qed
  qed
qed

lemma sender_loop_trace:
  "\<exists>es. trace (snd (sender_loop ch xs ctx s)) = trace s @ es
      \<and> concat (map sender_events (senders_asked es)) = es
      \<and> prefix (map fst (senders_asked es)) xs
      \<and> ((\<exists>u. fst (sender_loop ch xs ctx s) = Ok u) \<longrightarrow> map fst (senders_asked es) = xs)
      \<and> (xs \<noteq> [] \<longrightarrow> senders_asked es \<noteq> []
            \<and> hd (senders_asked es) = (hd xs, s_handles ch (hd xs) ctx (fst (mach s))))"
proof (induction xs arbitrary: s)
  case Nil
  then show ?case by (simp add: senders_asked_simps)
next
  case (Cons x xs)
  show ?case
  proof (cases "s_handles ch x ctx (fst (mach s))")
    case False
    let ?s1 = "note_event (SHandles x False) s"
    obtain es where es: "trace (snd (sender_loop ch xs ctx ?s1)) = trace ?s1 @ es"
        "concat (map sender_events (senders_asked es)) = es"
        "prefix (map fst (senders_asked es)) xs"
        "(\<exists>u. fst (sender_loop ch xs ctx ?s1) = Ok u) \<longrightarrow> map fst (senders_asked es) = xs"
      using Cons.IH[of ?s1] by blast
    have loop: "sender_loop ch (x # xs) ctx s = sender_loop ch xs ctx ?s1"
      using False by simp
    have f1: "trace (snd (sender_loop ch (x # xs) ctx s)) = trace s @ (SHandles x False # es)"
      using es(1) loop by (simp add: note_event_def)
    have f2: "concat (map sender_events (senders_asked (SHandles x False # es))) = SHandles x False # es"
      using es(2) by (simp add: senders_asked_simps)
    have f3: "prefix (map fst (senders_asked (SHandles x False # es))) (x # xs)"
      using es(3) by (simp add: senders_asked_simps)
    have f4: "(\<exists>u. fst (sender_loop ch (x # xs) ctx s) = Ok u) \<longrightarrow>
        map fst (senders_asked (SHandles x False # es)) = x # xs"
      using es(4) loop by (simp add: senders_asked_simps)
    have f5: "hd (senders_asked (SHandles x False # es))
        = (hd (x # xs), s_handles ch (hd (x # xs)) ctx (fst (mach s)))"
      using False by (simp add: senders_asked_simps)
    have f6: "senders_asked (SHandles x False # es) \<noteq> []"
      by (simp add: senders_asked_simps)
    show ?thesis
      by (rule exI[of _ "SHandles x False # es"]) (use f1 f2 f3 f4 f5 f6 in blast)
  next
    case True
    let ?s1 = "note_event (SHandles x True) s"
    obtain res s2 where cl: "await ch (call (SSend x) (s_send ch x ctx)) ?s1 = (res, s2)"
      by (metis surj_pair)
    have tr2: "trace s2 = trace s @ [SHandles x True, SSend x]"
      using cl by (auto simp: call_eq await_eq note_event_def)
    show ?thesis
    proof (cases res)
      case (Threw e)
      have loop: "sender_loop ch (x # xs) ctx s = (Threw e, s2)"
        using True cl Threw by simp
      have f1: "trace (snd (sender_loop ch (x # xs) ctx s)) = trace s @ [SHandles x True, SSend x]"
        using loop tr2 by simp
      have f2: "concat (map sender_events (senders_asked [SHandles x True, SSend x]))
          = [SHandles x True, SSend x]"
        by (simp add: senders_asked_simps)
      have f3: "prefix (map fst (senders_asked [SHandles x True, SSend x])) (x # xs)"
        by (simp add: senders_asked_simps)
      have f4: "\<not> (\<exists>u. fst (sender_loop ch (x # xs) ctx s) = Ok u)"
        using loop by simp
      have f5: "hd (senders_asked [SHandles x True, SSend x])
          = (hd (x # xs), s_handles ch (hd (x # xs)) ctx (fst (mach s)))"
        using True by (simp add: senders_asked_simps)
      have f6: "senders_asked [SHandles x True, SSend x] \<noteq> []"
        by (simp add: senders_asked_simps)
      show ?thesis
        by (rule exI[of _ "[SHandles x True, SSend x]"]) (use f1 f2 f3 f4 f5 f6 in blast)
    next
      case (Ok u)
      have loop: "sender_loop ch (x # xs) ctx s = sender_loop ch xs ctx s2"
        using True cl Ok by simp
      obtain es where es: "trace (snd (sender_loop ch xs ctx s2)) = trace s2 @ es"
          "concat (map sender_events (senders_asked es)) = es"
          "prefix (map fst (senders_asked es)) xs"
          "(\<exists>u. fst (sender_loop ch xs ctx s2) = Ok u) \<longrightarrow> map fst (senders_asked es) = xs"
        using Cons.IH[of s2] by blast
      let ?es = "SHandles x True # SSend x # es"
      have f1: "trace (snd (sender_loop ch (x # xs) ctx s)) = trace s @ ?es"
        using es(1) loop tr2 by simp
      have f2: "concat (map sender_events (senders_asked ?es)) = ?es"
        using es(2) by (simp add: senders_asked_simps)
      have f3: "prefix (map fst (senders_asked ?es)) (x # xs)"
        using es(3) by (simp add: senders_asked_simps)
      have f4: "(\<exists>u. fst (sender_loop ch (x # xs) ctx s) = Ok u) \<longrightarrow>
          map fst (senders_asked ?es) = x # xs"
        using es(4) loop by (simp add: senders_asked_simps)
      have f5: "hd (senders_asked ?es)
          = (hd (x # xs), s_handles ch (hd (x # xs)) ctx (fst (mach s)))"
        using True by (simp add: senders_asked_simps)
      have f6: "senders_asked ?es \<noteq> []"
        by (simp add: senders_asked_simps)
      show ?thesis
        by (rule exI[of _ "?es"]) (use f1 f2 f3 f4 f5 f6 in blast)
    qed
  qed
qed

lemma renderers_run_of_answers:
  "renderers_run (concat (map renderer_events as)) = map fst (filter snd as)"
  by (induction as) (auto simp: renderers_run_simps)

lemma senders_run_of_answers:
  "senders_run (concat (map sender_events as)) = map fst (filter snd as)"
  by (induction as) (auto simp: senders_run_simps)

lemma no_renderer_in_sender_events:
  "renderers_asked (concat (map sender_events as)) = []
   \<and> renderers_run (concat (map sender_events as)) = []"
  by (induction as) (auto simp: renderers_asked_simps renderers_run_simps)

lemma render_loop_nth_answer:
  assumes "rs = pre @ r # post"
      and "render_loop ch pre ctx s = (Ok c1, s2)"
      and "trace (snd (render_loop ch rs ctx s)) = trace s @ es"
  shows "length pre < length (renderers_asked es)
       \<and> renderers_asked es ! length pre = (r, r_handles ch r c1 (fst (mach s2)))"
proof -
  obtain es1 where es1: "trace (snd (render_loop ch pre ctx s)) = trace s @ es1"
      "(\<exists>c. fst (render_loop ch pre ctx s) = Ok c) \<longrightarrow> map fst (renderers_asked es1) = pre"
    using render_loop_trace[of ch pre ctx s] by blast
  have len: "length (renderers_asked es1) = length pre"
    using es1(2) assms(2) by (metis fst_conv length_map)
  have tr2: "trace s2 = trace s @ es1"
    using es1(1) assms(2) by simp
  have cont: "render_loop ch rs ctx s = render_loop ch (r # post) c1 s2"
    using assms(1,2) by (simp add: render_loop_append)
  obtain es2 where es2: "trace (snd (render_loop ch (r # post) c1 s2)) = trace s2 @ es2"
      "renderers_asked es2 \<noteq> []"
      "hd (renderers_asked es2) = (r, r_handles ch r c1 (fst (mach s2)))"
    using render_loop_trace[of ch "r # post" c1 s2] by auto
  have "es = es1 @ es2"
    using assms(3) cont es2(1) tr2 by simp
  then have "renderers_asked es = renderers_asked es1 @ renderers_asked es2"
    by (simp add: renderers_asked_append)
  then show ?thesis
    using len es2(2,3) by (simp add: nth_append hd_conv_nth)
qed

lemma sender_loop_nth_answer:
  assumes "xs = pre @ x # post"
      and "sender_loop ch pre ctx s = (Ok u, s2)"
      and "trace (snd (sender_loop ch xs ctx s)) = trace s @ es"
  shows "length pre < length (senders_asked es)
       \<and> senders_asked es ! length pre = (x, s_handles ch x ctx (fst (mach s2)))"
proof -
  obtain es1 where es1: "trace (snd (sender_loop ch pre ctx s)) = trace s @ es1"
      "(\<exists>u. fst (sender_loop ch pre ctx s) = Ok u) \<longrightarrow> map fst (senders_asked es1) = pre"
    using sender_loop_trace[of ch pre ctx s] by blast
  have len: "length (senders_asked es1) = length pre"
    using es1(2) assms(2) by (metis fst_conv length_map)
  have tr2: "trace s2 = trace s @ es1"
    using es1(1) assms(2) by simp
  have cont: "sender_loop ch xs ctx s = sender_loop ch (x # post) ctx s2"
    using assms(1,2) by (simp add: sender_loop_append)
  obtain es2 where es2: "trace (snd (sender_loop ch (x # post) ctx s2)) = trace s2 @ es2"
      "senders_asked es2 \<noteq> []"
      "hd (senders_asked es2) = (x, s_handles ch x ctx (fst (mach s2)))"
    using sender_loop_trace[of ch "x # post" ctx s2] by auto
  have "es = es1 @ es2"
    using assms(3) cont es2(1) tr2 by simp
  then have "senders_asked es = senders_asked es1 @ senders_asked es2"
    by (simp add: senders_asked_append)
  then show ?thesis
    using len es2(2,3) by (simp add: nth_append hd_conv_nth)
qed

lemma render_loop_marker:
  assumes "render_loop ch pre ctx s = (Ok c1, s2)"
      and "r_handles ch r c1 (fst (mach s2))"
      and "r_render ch r c1 (mach s2) = (Ok c2, m2)"
  shows "fst (render_loop ch (pre @ [r]) ctx s) = Ok (c2\<lparr>handlers := handlers c2 @ [''id'']\<rparr>)"
  using assms by (simp add: render_loop_append call_eq note_event_def)

lemma sender_loop_throw:
  assumes "xs = pre @ x # post"
      and "sender_loop ch pre ctx s = (Ok u, s2)"
      and "s_handles ch x ctx (fst (mach s2))"
      and "fst (s_send ch x ctx (mach s2)) = Threw e"
      and "trace (snd (sender_loop ch xs ctx s)) = trace s @ es"
  shows "fst (sender_loop ch xs ctx s) = Threw e \<and> map fst (senders_asked es) = pre @ [x]"
proof -
  obtain es1 where es1: "trace (snd (sender_loop ch pre ctx s)) = trace s @ es1"
      "(\<exists>u. fst (sender_loop ch pre ctx s) = Ok u) \<longrightarrow> map fst (senders_asked es1) = pre"
    using sender_loop_trace[of ch pre ctx s] by blast
  have pre: "map fst (senders_asked es1) = pre"
    using es1(2) assms(2) by simp
  have tr2: "trace s2 = trace s @ es1"
    using es1(1) assms(2) by simp
  have cont: "sender_loop ch xs ctx s = sender_loop ch (x # post) ctx s2"
    using assms(1,2) by (simp add: sender_loop_append)
  have stop: "fst (sender_loop ch (x # post) ctx s2) = Threw e
      \<and> trace (snd (sender_loop ch (x # post) ctx s2)) = trace s2 @ [SHandles x True, SSend x]"
    using assms(3,4) by (simp add: call_eq await_eq note_event_def)
  have "es = es1 @ [SHandles x True, SSend x]"
    using assms(5) cont stop tr2 by simp
  then have "map fst (senders_asked es) = pre @ [x]"
    using pre by (simp add: senders_asked_append senders_asked_simps)
  then show ?thesis using cont stop by simp
qed

lemma send_context_trace:
  "trace (snd (send_context ch cid p s)) = trace s @ [ConvGet (botId ch) cid]"
  by (auto simp: send_context_def make_context_def call_eq await_eq split: res.splits prod.splits)

lemma send_renderer_trace:
  "\<exists>es rest.
      trace (snd (send ch cid p s)) = trace s @ ConvGet (botId ch) cid # es @ rest
    \<and> concat (map renderer_events (renderers_asked es)) = es
    \<and> prefix (map fst (renderers_asked es)) setupRenderers
    \<and> renderers_run es = map fst (filter snd (renderers_asked es))
    \<and> renderers_asked rest = [] \<and> renderers_run rest = []
    \<and> (\<forall>ctx s1. send_context ch cid p s = (Ok ctx, s1) \<longrightarrow>
         ((\<exists>c. fst (render_loop ch setupRenderers ctx s1) = Ok c) \<longrightarrow>
            map fst (renderers_asked es) = setupRenderers)
       \<and> (\<forall>pre r post c1 s2.
            setupRenderers = pre @ r # post \<and> render_loop ch pre ctx s1 = (Ok c1, s2) \<longrightarrow>
              length pre < length (renderers_asked es)
            \<and> renderers_asked es ! length pre = (r, r_handles ch r c1 (fst (mach s2)))
            \<and> (\<forall>c2 m2. r_handles ch r c1 (fst (mach s2)) \<and> r_render ch r c1 (mach s2) = (Ok c2, m2) \<longrightarrow>
                 fst (render_loop ch (pre @ [r]) ctx s1)
                   = Ok (c2\<lparr>handlers := handlers c2 @ [''id'']\<rparr>))))"
proof -
  obtain res0 s1 where sc: "send_context ch cid p s = (res0, s1)"
    by (metis surj_pair)
  have tr1: "trace s1 = trace s @ [ConvGet (botId ch) cid]"
    using send_context_trace[of ch cid p s] sc by simp
  show ?thesis
  proof (cases res0)
    case (Threw e)
    have "send ch cid p s = (Threw e, s1)"
      using sc Threw by (simp add: send_def)
    then have f1: "trace (snd (send ch cid p s)) = trace s @ ConvGet (botId ch) cid # [] @ []"
      using tr1 by simp
    have f2: "\<forall>ctx s1. send_context ch cid p s \<noteq> (Ok ctx, s1)"
      using sc Threw by simp
    show ?thesis
      apply (rule exI[of _ "[]"], rule exI[of _ "[]"])
      using f1 f2 by (simp add: renderers_asked_simps renderers_run_simps setupRenderers_def)
  next
    case (Ok ctx)
    obtain res1 s2 where rl: "render_loop ch setupRenderers ctx s1 = (res1, s2)"
      by (metis surj_pair)
    obtain es where es: "trace s2 = trace s1 @ es"
        "concat (map renderer_events (renderers_asked es)) = es"
        "prefix (map fst (renderers_asked es)) setupRenderers"
        "(\<exists>c. fst (render_loop ch setupRenderers ctx s1) = Ok c) \<longrightarrow>
           map fst (renderers_asked es) = setupRenderers"
      using render_loop_trace[of ch setupRenderers ctx s1] rl by auto
    have run: "renderers_run es = map fst (filter snd (renderers_asked es))"
      using renderers_run_of_answers[of "renderers_asked es"] es(2) by simp
    have nth: "length pre < length (renderers_asked es)
            \<and> renderers_asked es ! length pre = (r, r_handles ch r c1 (fst (mach s3)))"
      if "setupRenderers = pre @ r # post" "render_loop ch pre ctx s1 = (Ok c1, s3)"
      for pre r post c1 s3
      using render_loop_nth_answer[OF that, of es] rl es(1) by simp
    have marker: "fst (render_loop ch (pre @ [r]) ctx s1) = Ok (c2\<lparr>handlers := handlers c2 @ [''id'']\<rparr>)"
      if "render_loop ch pre ctx s1 = (Ok c1, s3)" "r_handles ch r c1 (fst (mach s3))"
         "r_render ch r c1 (mach s3) = (Ok c2, m2)"
      for pre r c1 s3 c2 m2
      using render_loop_marker[OF that] .
    have detail: "\<forall>ctx' s1'. send_context ch cid p s = (Ok ctx', s1') \<longrightarrow>
         ((\<exists>c. fst (render_loop ch setupRenderers ctx' s1') = Ok c) \<longrightarrow>
            map fst (renderers_asked es) = setupRenderers)
       \<and> (\<forall>pre r post c1 s2.
            setupRenderers = pre @ r # post \<and> render_loop ch pre ctx' s1' = (Ok c1, s2) \<longrightarrow>
              length pre < length (renderers_asked es)
            \<and> renderers_asked es ! length pre = (r, r_handles ch r c1 (fst (mach s2)))
            \<and> (\<forall>c2 m2. r_handles ch r c1 (fst (mach s2)) \<and> r_render ch r c1 (mach s2) = (Ok c2, m2) \<longrightarrow>
                 fst (render_loop ch (pre @ [r]) ctx' s1')
                   = Ok (c2\<lparr>handlers := handlers c2 @ [''id'']\<rparr>)))"
    proof (intro allI impI)
      fix ctx' s1'
      assume "send_context ch cid p s = (Ok ctx', s1')"
      then have same: "ctx' = ctx" "s1' = s1" using sc Ok by simp_all
      show "((\<exists>c. fst (render_loop ch setupRenderers ctx' s1') = Ok c) \<longrightarrow>
            map fst (renderers_asked es) = setupRenderers)
       \<and> (\<forall>pre r post c1 s2.
            setupRenderers = pre @ r # post \<and> render_loop ch pre ctx' s1' = (Ok c1, s2) \<longrightarrow>
              length pre < length (renderers_asked es)
            \<and> renderers_asked es ! length pre = (r, r_handles ch r c1 (fst (mach s2)))
            \<and> (\<forall>c2 m2. r_handles ch r c1 (fst (mach s2)) \<and> r_render ch r c1 (mach s2) = (Ok c2, m2) \<longrightarrow>
                 fst (render_loop ch (pre @ [r]) ctx' s1')
                   = Ok (c2\<lparr>handlers := handlers c2 @ [''id'']\<rparr>)))"
        unfolding same using es(4) nth marker by blast
    qed
    show ?thesis
    proof (cases res1)
      case (Threw e)
      have "send ch cid p s = (Threw e, s2)"
        using sc Ok rl Threw by (simp add: send_def)
      then have f1: "trace (snd (send ch cid p s)) = trace s @ ConvGet (botId ch) cid # es @ []"
        using tr1 es(1) by simp
      have f5: "renderers_asked [] = [] \<and> renderers_run [] = []"
        by (simp add: renderers_asked_simps renderers_run_simps)
      show ?thesis
        apply (rule exI[of _ es], rule exI[of _ "[]"])
        using f1 es(2,3) run f5 detail by blast
    next
      case ok2: (Ok ctx2)
      have snd_eq: "send ch cid p s = sender_loop ch setupSenders ctx2 s2"
        using sc Ok rl ok2 by (simp add: send_def)
      obtain rest where rest: "trace (snd (sender_loop ch setupSenders ctx2 s2)) = trace s2 @ rest"
          "concat (map sender_events (senders_asked rest)) = rest"
        using sender_loop_trace[of ch setupSenders ctx2 s2] by blast
      have f1: "trace (snd (send ch cid p s)) = trace s @ ConvGet (botId ch) cid # es @ rest"
        using snd_eq rest(1) es(1) tr1 by simp
      have f5: "renderers_asked rest = [] \<and> renderers_run rest = []"
        using no_renderer_in_sender_events[of "senders_asked rest"] rest(2) by simp
      show ?thesis
        apply (rule exI[of _ es], rule exI[of _ rest])
        using f1 es(2,3) run f5 detail by blast
    qed
  qed
qed

lemma send_context_resolved:
  assumes "fst (conv_get ch (botId ch) cid (mach s)) = Ok conv"
  shows "send_context ch cid p s =
     (Ok \<lparr>ctx_client = (web_client ch, events_adapter ch, interactive_adapter ch),
          handlers = [],
          payload = fst (cloneDeep p (fst (meanwhile ch (snd (conv_get ch (botId ch) cid (mach s)))))),
          botUrl = ''https://duckduckgo.com/'',
          message_blocks = [],
          channelId = (case conv of None \<Rightarrow> JUndefined | Some c \<Rightarrow> JStr (userId c))\<rparr>,
      \<lparr>mach = (snd (cloneDeep p (fst (meanwhile ch (snd (conv_get ch (botId ch) cid (mach s)))))),
               snd (meanwhile ch (snd (conv_get ch (botId ch) cid (mach s))))),
        trace = trace s @ [ConvGet (botId ch) cid]\<rparr>)"
  using assms
  by (simp add: send_context_def make_context_def call_eq await_eq split: prod.splits)

lemma rename_obj_cong:
  assumes "\<And>a. a \<in> obj_refs ob \<Longrightarrow> f a = g a"
  shows "rename_obj f ob = rename_obj g ob"
proof -
  have "rename f (snd kv) = rename g (snd kv)" if "kv \<in> set ob" for kv
  proof (cases "snd kv")
    case (JRef a)
    then have "a \<in> obj_refs ob" using that by (force simp: obj_refs_def)
    then show ?thesis using assms JRef by simp
  qed auto
  then show ?thesis by (simp add: rename_obj_def)
qed

lemma rename_cong:
  assumes "\<And>a. a \<in> refs_of v \<Longrightarrow> f a = g a"
  shows "rename f v = rename g v"
  using assms by (cases v) auto

lemma map_of_rename_obj:
  "map_of (rename_obj f ob) k = map_option (rename f) (map_of ob k)"
  by (induction ob) (auto simp: rename_obj_def)

lemma rename_prototype: "rename f (object_prototype k) = object_prototype k"
  by (simp add: object_prototype_def)

lemma get_prop_rename:
  assumes "same_shape f A h h'" and "refs_of v \<subseteq> A"
  shows "get_prop h' (rename f v) k = rename f (get_prop h v k)"
proof (cases v)
  case (JRef a)
  then have a: "a \<in> A" using assms(2) by simp
  then have "a < length h" "f a < length h'" "h' ! f a = rename_obj f (h ! a)"
    using assms(1) by (auto simp: same_shape_def)
  then show ?thesis
    using JRef by (auto simp: get_prop_def map_of_rename_obj rename_prototype split: option.splits)
next
  case (JStr x)
  then show ?thesis
    by (auto simp: get_prop_def rename_prototype split: option.splits)
qed (auto simp: get_prop_def rename_prototype)

lemma rename_is_string: "rename f v = JStr x \<longleftrightarrow> v = JStr x"
  by (cases v) auto

lemma same_payload_prims:
  assumes "refs_of v = {}"
  shows "same_payload v h v h'"
proof -
  have "same_shape id {} h h'" by (simp add: same_shape_def)
  moreover have "v = rename id v" using assms by (cases v) auto
  ultimately show ?thesis unfolding same_payload_def using assms by blast
qed

lemma obj_refs_shift_obj: "obj_refs (shift_obj n ob) = (\<lambda>a. a + n) ` obj_refs ob"
proof -
  have "refs_of (shift n v) = (\<lambda>a. a + n) ` refs_of v" for v
    by (cases v) auto
  then show ?thesis by (auto simp: obj_refs_def shift_obj_def)
qed

lemma shift_rename_obj:
  "shift_obj n' (rename_obj f ob) = rename_obj (\<lambda>b. f (b - n) + n') (shift_obj n ob)"
proof -
  have "shift n' (rename f v) = rename (\<lambda>b. f (b - n) + n') (shift n v)" for v
    by (cases v) auto
  then show ?thesis by (simp add: shift_obj_def rename_obj_def)
qed

lemma cloneDeep_same_payload:
  assumes "same_payload p h p' h'"
  shows "same_payload (fst (cloneDeep p h)) (snd (cloneDeep p h))
                      (fst (cloneDeep p' h')) (snd (cloneDeep p' h'))"
proof -
  obtain f A where ss: "same_shape f A h h'" and rf: "refs_of p \<subseteq> A" and p': "p' = rename f p"
    using assms unfolding same_payload_def by blast
  show ?thesis
  proof (cases p)
    case (JRef a)
    let ?n = "length h" and ?n' = "length h'"
    let ?g = "\<lambda>b. f (b - ?n) + ?n'"
    let ?B = "(\<lambda>a. a + ?n) ` A"
    let ?hc = "h @ map (shift_obj ?n) h" and ?hc' = "h' @ map (shift_obj ?n') h'"
    have inA: "a < ?n \<and> f a < ?n' \<and> obj_refs (h ! a) \<subseteq> A \<and> h' ! f a = rename_obj f (h ! a)"
      if "a \<in> A" for a
      using ss that by (auto simp: same_shape_def)
    have inj: "inj_on ?g ?B"
      using ss by (auto simp: same_shape_def inj_on_def)
    have each: "b < length ?hc \<and> ?g b < length ?hc' \<and> obj_refs (?hc ! b) \<subseteq> ?B
                \<and> ?hc' ! ?g b = rename_obj ?g (?hc ! b)" if bB: "b \<in> ?B" for b
    proof -
      obtain a0 where b: "b = a0 + ?n" and a0: "a0 \<in> A" using bB by blast
      note i = inA[OF a0]
      have o: "?hc ! b = shift_obj ?n (h ! a0)" using b i by (simp add: nth_append)
      have o': "?hc' ! ?g b = shift_obj ?n' (h' ! f a0)" using b i by (simp add: nth_append)
      have "obj_refs (?hc ! b) \<subseteq> ?B"
        unfolding o obj_refs_shift_obj using i by blast
      moreover have "?hc' ! ?g b = rename_obj ?g (?hc ! b)"
        unfolding o o' using i shift_rename_obj[of ?n' f "h ! a0" ?n] by simp
      ultimately show ?thesis using b i by simp
    qed
    have "same_shape ?g ?B ?hc ?hc'"
      unfolding same_shape_def using inj each by blast
    moreover have "refs_of (JRef (a + ?n)) \<subseteq> ?B" using rf JRef by simp
    moreover have "JRef (f a + ?n') = rename ?g (JRef (a + ?n))" by simp
    ultimately have "same_payload (JRef (a + ?n)) ?hc (JRef (f a + ?n')) ?hc'"
      unfolding same_payload_def by blast
    then show ?thesis using JRef p' by (simp add: cloneDeep_def)
  next
    case (JBuiltin x)
    let ?n = "length h" and ?n' = "length h'"
    have "same_shape (\<lambda>b. ?n') {?n} (h @ [[]]) (h' @ [[]])"
      by (simp add: same_shape_def obj_refs_def rename_obj_def)
    moreover have "JRef ?n' = rename (\<lambda>b. ?n') (JRef ?n)" by simp
    ultimately have "same_payload (JRef ?n) (h @ [[]]) (JRef ?n') (h' @ [[]])"
      unfolding same_payload_def by (metis refs_of.simps(1) subset_refl)
    then show ?thesis using JBuiltin p' by (simp add: cloneDeep_def)
  next
    case JUndefined then show ?thesis using p' by (simp add: cloneDeep_def same_payload_prims)
  next
    case JNull then show ?thesis using p' by (simp add: cloneDeep_def same_payload_prims)
  next
    case (JBool b) then show ?thesis using p' by (simp add: cloneDeep_def same_payload_prims)
  next
    case (JNum i) then show ?thesis using p' by (simp add: cloneDeep_def same_payload_prims)
  next
    case (JStr x) then show ?thesis using p' by (simp add: cloneDeep_def same_payload_prims)
  qed
qed

lemma render_loop_same_payload:
  assumes "stateless_renderers ch"
      and "same_payload (payload c) (fst (mach s)) (payload c') (fst (mach s'))"
  shows "\<exists>es. trace (snd (render_loop ch rs c s)) = trace s @ es
            \<and> trace (snd (render_loop ch rs c' s')) = trace s' @ es"
  using assms(2)
proof (induction rs arbitrary: c s c' s')
  case Nil
  then show ?case by simp
next
  case (Cons r rs)
  note st = assms(1)[unfolded stateless_renderers_def, rule_format, OF Cons.prems, of r]
  have same_answer: "r_handles ch r c (fst (mach s)) = r_handles ch r c' (fst (mach s'))"
    using st by simp
  show ?case
  proof (cases "r_handles ch r c (fst (mach s))")
    case False
    let ?t = "note_event (RHandles r False) s" and ?t' = "note_event (RHandles r False) s'"
    have "same_payload (payload c) (fst (mach ?t)) (payload c') (fst (mach ?t'))"
      using Cons.prems by (simp add: note_event_def)
    then obtain es where
        "trace (snd (render_loop ch rs c ?t)) = trace ?t @ es"
        "trace (snd (render_loop ch rs c' ?t')) = trace ?t' @ es"
      using Cons.IH by blast
    then have "trace (snd (render_loop ch (r # rs) c s)) = trace s @ RHandles r False # es
             \<and> trace (snd (render_loop ch (r # rs) c' s')) = trace s' @ RHandles r False # es"
      using False same_answer by (simp add: note_event_def)
    then show ?thesis by blast
  next
    case True
    let ?t = "\<lparr>mach = snd (r_render ch r c (mach s)), trace = trace s @ [RHandles r True, RRender r]\<rparr>"
    let ?t' = "\<lparr>mach = snd (r_render ch r c' (mach s')), trace = trace s' @ [RHandles r True, RRender r]\<rparr>"
    have cl: "call (RRender r) (r_render ch r c) (note_event (RHandles r True) s)
                = (fst (r_render ch r c (mach s)), ?t)"
             "call (RRender r) (r_render ch r c') (note_event (RHandles r True) s')
                = (fst (r_render ch r c' (mach s')), ?t')"
      by (simp_all add: call_eq note_event_def)
    show ?thesis
    proof (cases "fst (r_render ch r c (mach s))")
      case (Threw e)
      then obtain e' where t': "fst (r_render ch r c' (mach s')) = Threw e'"
        using st by (cases "fst (r_render ch r c' (mach s'))") auto
      have "trace (snd (render_loop ch (r # rs) c s)) = trace s @ [RHandles r True, RRender r]
          \<and> trace (snd (render_loop ch (r # rs) c' s')) = trace s' @ [RHandles r True, RRender r]"
        using True same_answer cl Threw t' by simp
      then show ?thesis by blast
    next
      case (Ok c1)
      then obtain c1' where ok': "fst (r_render ch r c' (mach s')) = Ok c1'"
        using st by (cases "fst (r_render ch r c' (mach s'))") auto
      have "same_payload (payload c1) (fst (mach ?t)) (payload c1') (fst (mach ?t'))"
        using st Ok ok' by simp
      then have "same_payload (payload (c1\<lparr>handlers := handlers c1 @ [''id'']\<rparr>)) (fst (mach ?t))
                              (payload (c1'\<lparr>handlers := handlers c1' @ [''id'']\<rparr>)) (fst (mach ?t'))"
        by simp
      then obtain es where
          "trace (snd (render_loop ch rs (c1\<lparr>handlers := handlers c1 @ [''id'']\<rparr>) ?t)) = trace ?t @ es"
          "trace (snd (render_loop ch rs (c1'\<lparr>handlers := handlers c1' @ [''id'']\<rparr>) ?t')) = trace ?t' @ es"
        using Cons.IH by blast
      then have "trace (snd (render_loop ch (r # rs) c s)) = trace s @ RHandles r True # RRender r # es
          \<and> trace (snd (render_loop ch (r # rs) c' s')) = trace s' @ RHandles r True # RRender r # es"
        using True same_answer cl Ok ok' by simp
      then show ?thesis by blast
    qed
  qed
qed

lemma send_trace_after_renderers:
  assumes "send_context ch cid p s = (Ok ctx, s1)"
  shows "\<exists>rest. trace (snd (send ch cid p s))
                  = trace (snd (render_loop ch setupRenderers ctx s1)) @ rest
               \<and> renderers_asked rest = [] \<and> renderers_run rest = []"
proof -
  obtain res1 s2 where rl: "render_loop ch setupRenderers ctx s1 = (res1, s2)"
    by (metis surj_pair)
  show ?thesis
  proof (cases res1)
    case (Threw e)
    then have "send ch cid p s = (Threw e, s2)" using assms rl by (simp add: send_def)
    then show ?thesis using rl by (simp add: renderers_asked_simps renderers_run_simps)
  next
    case (Ok ctx2)
    have eq: "send ch cid p s = sender_loop ch setupSenders ctx2 s2"
      using assms rl Ok by (simp add: send_def)
    obtain rest where rest: "trace (snd (sender_loop ch setupSenders ctx2 s2)) = trace s2 @ rest"
        "concat (map sender_events (senders_asked rest)) = rest"
      using sender_loop_trace[of ch setupSenders ctx2 s2] by blast
    have "renderers_asked rest = [] \<and> renderers_run rest = []"
      using no_renderer_in_sender_events[of "senders_asked rest"] rest(2) by simp
    then show ?thesis using eq rest(1) rl by auto
  qed
qed

lemma send_same_payload:
  assumes st: "stateless_renderers ch"
      and l1: "fst (conv_get ch (botId ch) cid (mach s)) = Ok conv"
      and l2: "fst (conv_get ch (botId ch) cid' (mach s')) = Ok conv'"
      and sp: "same_payload p (copy_store ch cid s) p' (copy_store ch cid' s')"
  shows "renderers_asked (drop (length (trace s)) (trace (snd (send ch cid p s))))
           = renderers_asked (drop (length (trace s')) (trace (snd (send ch cid' p' s'))))
       \<and> renderers_run (drop (length (trace s)) (trace (snd (send ch cid p s))))
           = renderers_run (drop (length (trace s')) (trace (snd (send ch cid' p' s'))))"
proof -
  obtain ctx s1 where sc: "send_context ch cid p s = (Ok ctx, s1)"
      and pc: "payload ctx = fst (cloneDeep p (copy_store ch cid s))"
      and hc: "fst (mach s1) = snd (cloneDeep p (copy_store ch cid s))"
      and t1: "trace s1 = trace s @ [ConvGet (botId ch) cid]"
    using send_context_resolved[OF l1, of p] by (simp add: copy_store_def)
  obtain ctx' s1' where sc': "send_context ch cid' p' s' = (Ok ctx', s1')"
      and pc': "payload ctx' = fst (cloneDeep p' (copy_store ch cid' s'))"
      and hc': "fst (mach s1') = snd (cloneDeep p' (copy_store ch cid' s'))"
      and t1': "trace s1' = trace s' @ [ConvGet (botId ch) cid']"
    using send_context_resolved[OF l2, of p'] by (simp add: copy_store_def)
  have "same_payload (payload ctx) (fst (mach s1)) (payload ctx') (fst (mach s1'))"
    unfolding pc hc pc' hc' using cloneDeep_same_payload[OF sp] .
  then obtain es where es:
      "trace (snd (render_loop ch setupRenderers ctx s1)) = trace s1 @ es"
      "trace (snd (render_loop ch setupRenderers ctx' s1')) = trace s1' @ es"
    using render_loop_same_payload[OF st] by blast
  obtain rest where rest: "trace (snd (send ch cid p s))
                  = trace (snd (render_loop ch setupRenderers ctx s1)) @ rest"
      "renderers_asked rest = []" "renderers_run rest = []"
    using send_trace_after_renderers[OF sc] by blast
  obtain rest' where rest': "trace (snd (send ch cid' p' s'))
                  = trace (snd (render_loop ch setupRenderers ctx' s1')) @ rest'"
      "renderers_asked rest' = []" "renderers_run rest' = []"
    using send_trace_after_renderers[OF sc'] by blast
  have d: "drop (length (trace s)) (trace (snd (send ch cid p s)))
             = ConvGet (botId ch) cid # es @ rest"
    using rest(1) es(1) t1 by simp
  have d': "drop (length (trace s')) (trace (snd (send ch cid' p' s')))
             = ConvGet (botId ch) cid' # es @ rest'"
    using rest'(1) es(2) t1' by simp
  show ?thesis
    unfolding d d'
    by (simp add: renderers_asked_simps renderers_run_simps renderers_asked_append
          renderers_run_append rest rest')
qed

lemma render_loop_step:
  assumes "render_loop ch pre ctx s1 = (Ok c1, s2)"
  shows "render_loop ch (pre @ [r]) ctx s1 =
           (if r_handles ch r c1 (fst (mach s2))
            then (case r_render ch r c1 (mach s2) of
                    (Threw e, m2) \<Rightarrow>
                      (Threw e, \<lparr>mach = m2, trace = trace s2 @ [RHandles r True, RRender r]\<rparr>)
                  | (Ok c2, m2) \<Rightarrow>
                      (Ok (c2\<lparr>handlers := handlers c2 @ [''id'']\<rparr>),
                       \<lparr>mach = m2, trace = trace s2 @ [RHandles r True, RRender r]\<rparr>))
            else (Ok c1, \<lparr>mach = mach s2, trace = trace s2 @ [RHandles r False]\<rparr>))"
  using assms
  by (auto simp: render_loop_append call_def note_event_def split: prod.splits res.splits)


lemma card_channel_stateless: "stateless_renderers card_channel"
  unfolding stateless_renderers_def
proof (intro allI impI)
  fix r :: renderer and c c' :: slack_context and m m' :: "unit mach"
  assume sp: "same_payload (payload c) (fst m) (payload c') (fst m')"
  obtain f A where ss: "same_shape f A (fst m) (fst m')" and rf: "refs_of (payload c) \<subseteq> A"
      and p': "payload c' = rename f (payload c)"
    using sp unfolding same_payload_def by blast
  have ty: "get_prop (fst m') (payload c') ''type'' = JStr x
              \<longleftrightarrow> get_prop (fst m) (payload c) ''type'' = JStr x" for x
    unfolding p' get_prop_rename[OF ss rf] by (rule rename_is_string)
  have handles: "r_handles card_channel r c (fst m) = r_handles card_channel r c' (fst m')"
    by (simp add: card_channel_def demo_channel_def ty)
  have render: "case (fst (r_render card_channel r c m), fst (r_render card_channel r c' m')) of
             (Ok c1, Ok c1') \<Rightarrow>
               same_payload (payload c1) (fst (snd (r_render card_channel r c m)))
                            (payload c1') (fst (snd (r_render card_channel r c' m')))
           | (Threw e, Threw e') \<Rightarrow> True
           | _ \<Rightarrow> False"
  proof (cases "r = CardToCarouselRenderer")
    case False
    then show ?thesis using sp by (simp add: card_channel_def demo_channel_def)
  next
    case True
    let ?n = "length (fst m)" and ?n' = "length (fst m')"
    let ?g = "\<lambda>a. if a = ?n then ?n' else if a = Suc ?n then Suc ?n' else f a"
    let ?B = "insert ?n (insert (Suc ?n) A)"
    let ?h1 = "fst m @ [[(''type'', JStr ''carousel''), (''items'', JRef (Suc ?n))],
                        [(''0'', payload c), (''length'', JNum 1)]]"
    let ?h1' = "fst m' @ [[(''type'', JStr ''carousel''), (''items'', JRef (Suc ?n'))],
                          [(''0'', payload c'), (''length'', JNum 1)]]"
    have inA: "a < ?n \<and> f a < ?n' \<and> obj_refs (fst m ! a) \<subseteq> A
               \<and> fst m' ! f a = rename_obj f (fst m ! a)" if "a \<in> A" for a
      using ss that by (auto simp: same_shape_def)
    have gA: "?g a = f a" if "a \<in> A" for a
      using inA[OF that] by simp
    have injf: "inj_on f A" using ss by (simp add: same_shape_def)
    have inj: "inj_on ?g ?B"
      unfolding inj_on_def
    proof (intro ballI impI)
      fix x y
      assume x: "x \<in> ?B" and y: "y \<in> ?B" and e: "?g x = ?g y"
      consider "x \<in> A" "y \<in> A" | "x \<in> A" "y \<notin> A" | "x \<notin> A" "y \<in> A" | "x \<notin> A" "y \<notin> A"
        by blast
      then show "x = y"
      proof cases
        case 1
        then show ?thesis using e gA injf by (auto dest: inj_onD)
      next
        case 2
        then show ?thesis using e y inA[of x] by (auto split: if_splits)
      next
        case 3
        then show ?thesis using e x inA[of y] by (auto split: if_splits)
      next
        case 4
        then show ?thesis using e x y by (auto split: if_splits)
      qed
    qed
    have each: "b < length ?h1 \<and> ?g b < length ?h1' \<and> obj_refs (?h1 ! b) \<subseteq> ?B
                \<and> ?h1' ! ?g b = rename_obj ?g (?h1 ! b)" if bB: "b \<in> ?B" for b
    proof -
      consider "b \<in> A" | "b = ?n" | "b = Suc ?n" using bB by blast
      then show ?thesis
      proof cases
        case 1
        note i = inA[OF 1]
        have "rename_obj f (fst m ! b) = rename_obj ?g (fst m ! b)"
        proof (rule rename_obj_cong)
          fix a
          assume "a \<in> obj_refs (fst m ! b)"
          then have "a \<in> A" using i by blast
          then show "f a = ?g a" using gA[of a] by (simp only:)
        qed
        then show ?thesis using i by (auto simp: nth_append)
      next
        case 2
        then show ?thesis by (simp add: nth_append obj_refs_def rename_obj_def)
      next
        case 3
        have "rename f (payload c) = rename ?g (payload c)"
        proof (rule rename_cong)
          fix a
          assume "a \<in> refs_of (payload c)"
          then have "a \<in> A" using rf by blast
          then show "f a = ?g a" using gA[of a] by (simp only:)
        qed
        then show ?thesis
          using 3 rf p' by (auto simp: nth_append obj_refs_def rename_obj_def)
      qed
    qed
    have "same_shape ?g ?B ?h1 ?h1'"
      unfolding same_shape_def using inj each by blast
    moreover have "refs_of (JRef ?n) \<subseteq> ?B" by simp
    moreover have "JRef ?n' = rename ?g (JRef ?n)" by simp
    ultimately have "same_payload (JRef ?n) ?h1 (JRef ?n') ?h1'"
      unfolding same_payload_def by blast
    then show ?thesis using True by (simp add: card_channel_def demo_channel_def)
  qed
  show "r_handles card_channel r c (fst m) = r_handles card_channel r c' (fst m')
        \<and> (case (fst (r_render card_channel r c m), fst (r_render card_channel r c' m')) of
             (Ok c1, Ok c1') \<Rightarrow>
               same_payload (payload c1) (fst (snd (r_render card_channel r c m)))
                            (payload c1') (fst (snd (r_render card_channel r c' m')))
           | (Threw e, Threw e') \<Rightarrow> True
           | _ \<Rightarrow> False)"
    using handles render by blast
qed

text \<open>
  Claim C3. In every call of \<open>send\<close> the trace is the conversation lookup, then the events
  \<open>es\<close> of the renderer loop, then the rest (the senders, which are no renderer events).
  The renderer events are, renderer by renderer, the question \<open>handles\<close> followed by the
  \<open>render\<close> when the answer was yes; the renderers asked are an initial part of the
  declared list \<open>setupRenderers\<close>, in that order, and all of it when no \<open>render\<close> throws; the
  renderers run are exactly those that answered yes, in the same relative order. Rendering
  is cumulative: the renderer at any position is asked about the context the renderers
  before it have produced, whether or not one of them has fired; and when it fires and
  returns, the marker \<open>'id'\<close> is appended to the handlers of the context it returned.

  The second part gives the loop state by state. It starts with the context and in the
  state that \<open>send\<close> has built. When the renderers \<open>pre\<close> have left the context \<open>c1\<close> and
  the state \<open>s2\<close>, the next renderer is asked about \<open>c1\<close> in the store of \<open>s2\<close>; if it
  applies, its \<open>render\<close> runs on the machine of \<open>s2\<close>, and the context it returns, with
  the marker appended, and the machine it leaves go on to the renderer after it; if its
  \<open>render\<close> throws, the loop ends with that error.

  The third part is the repeated call. For renderers that are stateless, as the spec
  says they are, two calls of \<open>send\<close> whose conversation lookups return and whose
  payloads are the same when they are copied ask the same renderers with the same answers
  and run the same renderers in the same order.
\<close>

theorem send_consults_renderers_in_declared_order:
  "(\<exists>es rest.
      trace (snd (send ch cid p s)) = trace s @ ConvGet (botId ch) cid # es @ rest
    \<and> concat (map renderer_events (renderers_asked es)) = es
    \<and> prefix (map fst (renderers_asked es)) setupRenderers
    \<and> renderers_run es = map fst (filter snd (renderers_asked es))
    \<and> renderers_asked rest = [] \<and> renderers_run rest = []
    \<and> (\<forall>ctx s1. send_context ch cid p s = (Ok ctx, s1) \<longrightarrow>
         ((\<exists>c. fst (render_loop ch setupRenderers ctx s1) = Ok c) \<longrightarrow>
            map fst (renderers_asked es) = setupRenderers)
       \<and> (\<forall>pre r post c1 s2.
            setupRenderers = pre @ r # post \<and> render_loop ch pre ctx s1 = (Ok c1, s2) \<longrightarrow>
              length pre < length (renderers_asked es)
            \<and> renderers_asked es ! length pre = (r, r_handles ch r c1 (fst (mach s2)))
            \<and> (\<forall>c2 m2. r_handles ch r c1 (fst (mach s2)) \<and> r_render ch r c1 (mach s2) = (Ok c2, m2) \<longrightarrow>
                 fst (render_loop ch (pre @ [r]) ctx s1)
                   = Ok (c2\<lparr>handlers := handlers c2 @ [''id'']\<rparr>)))))
   \<and> (\<forall>ctx s1. send_context ch cid p s = (Ok ctx, s1) \<longrightarrow>
         send ch cid p s =
           (case render_loop ch setupRenderers ctx s1 of
              (Threw e, s2) \<Rightarrow> (Threw e, s2)
            | (Ok ctx', s2) \<Rightarrow> sender_loop ch setupSenders ctx' s2)
       \<and> render_loop ch [] ctx s1 = (Ok ctx, s1)
       \<and> (\<forall>pre r c1 s2. render_loop ch pre ctx s1 = (Ok c1, s2) \<longrightarrow>
             render_loop ch (pre @ [r]) ctx s1 =
               (if r_handles ch r c1 (fst (mach s2))
                then (case r_render ch r c1 (mach s2) of
                        (Threw e, m2) \<Rightarrow>
                          (Threw e, \<lparr>mach = m2, trace = trace s2 @ [RHandles r True, RRender r]\<rparr>)
                      | (Ok c2, m2) \<Rightarrow>
                          (Ok (c2\<lparr>handlers := handlers c2 @ [''id'']\<rparr>),
                           \<lparr>mach = m2, trace = trace s2 @ [RHandles r True, RRender r]\<rparr>))
                else (Ok c1, \<lparr>mach = mach s2, trace = trace s2 @ [RHandles r False]\<rparr>))))
   \<and> (stateless_renderers ch \<longrightarrow>
        (\<forall>cid' p' s' conv conv'.
            fst (conv_get ch (botId ch) cid (mach s)) = Ok conv
          \<and> fst (conv_get ch (botId ch) cid' (mach s')) = Ok conv'
          \<and> same_payload p (copy_store ch cid s) p' (copy_store ch cid' s') \<longrightarrow>
            renderers_asked (drop (length (trace s)) (trace (snd (send ch cid p s))))
              = renderers_asked (drop (length (trace s')) (trace (snd (send ch cid' p' s'))))
          \<and> renderers_run (drop (length (trace s)) (trace (snd (send ch cid p s))))
              = renderers_run (drop (length (trace s')) (trace (snd (send ch cid' p' s'))))))"
proof (intro conjI allI impI)
  show "\<exists>es rest.
      trace (snd (send ch cid p s)) = trace s @ ConvGet (botId ch) cid # es @ rest
    \<and> concat (map renderer_events (renderers_asked es)) = es
    \<and> prefix (map fst (renderers_asked es)) setupRenderers
    \<and> renderers_run es = map fst (filter snd (renderers_asked es))
    \<and> renderers_asked rest = [] \<and> renderers_run rest = []
    \<and> (\<forall>ctx s1. send_context ch cid p s = (Ok ctx, s1) \<longrightarrow>
         ((\<exists>c. fst (render_loop ch setupRenderers ctx s1) = Ok c) \<longrightarrow>
            map fst (renderers_asked es) = setupRenderers)
       \<and> (\<forall>pre r post c1 s2.
            setupRenderers = pre @ r # post \<and> render_loop ch pre ctx s1 = (Ok c1, s2) \<longrightarrow>
              length pre < length (renderers_asked es)
            \<and> renderers_asked es ! length pre = (r, r_handles ch r c1 (fst (mach s2)))
            \<and> (\<forall>c2 m2. r_handles ch r c1 (fst (mach s2)) \<and> r_render ch r c1 (mach s2) = (Ok c2, m2) \<longrightarrow>
                 fst (render_loop ch (pre @ [r]) ctx s1)
                   = Ok (c2\<lparr>handlers := handlers c2 @ [''id'']\<rparr>))))"
    by (rule send_renderer_trace)
next
  fix ctx s1
  assume "send_context ch cid p s = (Ok ctx, s1)"
  then show "send ch cid p s =
           (case render_loop ch setupRenderers ctx s1 of
              (Threw e, s2) \<Rightarrow> (Threw e, s2)
            | (Ok ctx', s2) \<Rightarrow> sender_loop ch setupSenders ctx' s2)"
    by (simp add: send_def)
next
  fix ctx and s1 :: "'a state"
  show "render_loop ch [] ctx s1 = (Ok ctx, s1)" by simp
next
  fix ctx s1 pre r c1 s2
  assume "render_loop ch pre ctx s1 = (Ok c1, s2)"
  then show "render_loop ch (pre @ [r]) ctx s1 =
               (if r_handles ch r c1 (fst (mach s2))
                then (case r_render ch r c1 (mach s2) of
                        (Threw e, m2) \<Rightarrow>
                          (Threw e, \<lparr>mach = m2, trace = trace s2 @ [RHandles r True, RRender r]\<rparr>)
                      | (Ok c2, m2) \<Rightarrow>
                          (Ok (c2\<lparr>handlers := handlers c2 @ [''id'']\<rparr>),
                           \<lparr>mach = m2, trace = trace s2 @ [RHandles r True, RRender r]\<rparr>))
                else (Ok c1, \<lparr>mach = mach s2, trace = trace s2 @ [RHandles r False]\<rparr>))"
    by (rule render_loop_step)
next
  fix cid' p' and s' :: "'a state" and conv conv'
  assume st: "stateless_renderers ch"
     and h: "fst (conv_get ch (botId ch) cid (mach s)) = Ok conv
          \<and> fst (conv_get ch (botId ch) cid' (mach s')) = Ok conv'
          \<and> same_payload p (copy_store ch cid s) p' (copy_store ch cid' s')"
  note both = send_same_payload[OF st h[THEN conjunct1] h[THEN conjunct2, THEN conjunct1]
      h[THEN conjunct2, THEN conjunct2]]
  show "renderers_asked (drop (length (trace s)) (trace (snd (send ch cid p s))))
              = renderers_asked (drop (length (trace s')) (trace (snd (send ch cid' p' s'))))"
    using both by (rule conjunct1)
  show "renderers_run (drop (length (trace s)) (trace (snd (send ch cid p s))))
              = renderers_run (drop (length (trace s')) (trace (snd (send ch cid' p' s'))))"
    using both by (rule conjunct2)
qed

lemmas demo_defs =
  demo_channel_def demo_conversation_def text_state_def text_context_def text_state_copied_def
  send_context_def make_context_def cloneDeep_def shift_obj_def await_def call_def
  note_event_def get_prop_def object_prototype_def object_prototype_names_def
  setupRenderers_def setupSenders_def

lemma demo_send_context:
  "send_context demo_channel ''conv-1'' (JRef 0) text_state = (Ok text_context, text_state_copied)"
  by (simp add: demo_defs)

lemma demo_render_loop:
  "render_loop demo_channel setupRenderers text_context text_state_copied =
     (Ok (text_context\<lparr>handlers := [''id'', ''id''],
                       message_blocks := [JStr ''block'', JStr ''block'']\<rparr>),
      text_state_copied\<lparr>trace := [ConvGet ''bot-a'' ''conv-1'',
        RHandles CardToCarouselRenderer False,
        RHandles SlackTextRenderer True, RRender SlackTextRenderer,
        RHandles SlackImageRenderer False,
        RHandles SlackCarouselRenderer False,
        RHandles SlackChoicesRenderer True, RRender SlackChoicesRenderer,
        RHandles SlackFeedbackRenderer False]\<rparr>)"
  by (simp add: demo_defs)

lemma demo_send_trace:
  "trace (snd (send demo_channel ''conv-1'' (JRef 0) text_state)) =
       [ConvGet ''bot-a'' ''conv-1'', RHandles CardToCarouselRenderer False,
        RHandles SlackTextRenderer True, RRender SlackTextRenderer,
        RHandles SlackImageRenderer False,
        RHandles SlackCarouselRenderer False,
        RHandles SlackChoicesRenderer True, RRender SlackChoicesRenderer,
        RHandles SlackFeedbackRenderer False,
        SHandles SlackTypingSender True, SSend SlackTypingSender,
        SHandles SlackCommonSender True, SSend SlackCommonSender]"
  unfolding send_def demo_send_context
  apply (simp only: prod.case res.case demo_render_loop)
  by (simp add: demo_defs)

lemma card_send_context:
  "send_context card_channel ''conv-1'' (JRef 0) card_state = (Ok card_context, card_state_copied)"
  by (simp add: card_channel_def card_state_def card_context_def card_state_copied_def demo_defs)

lemma card_send_state:
  "snd (send card_channel ''conv-1'' (JRef 0) card_state) =
     \<lparr>mach = (carousel_store, ()),
      trace = [ConvGet ''bot-a'' ''conv-1'',
               RHandles CardToCarouselRenderer True, RRender CardToCarouselRenderer,
               RHandles SlackTextRenderer False, RHandles SlackImageRenderer False,
               RHandles SlackCarouselRenderer True, RRender SlackCarouselRenderer,
               RHandles SlackChoicesRenderer False, RHandles SlackFeedbackRenderer False,
               SHandles SlackTypingSender True, SSend SlackTypingSender,
               SHandles SlackCommonSender True, SSend SlackCommonSender]\<rparr>"
  unfolding send_def card_send_context
  by (simp add: card_channel_def card_context_def card_state_copied_def carousel_store_def
        demo_channel_def setupRenderers_def setupSenders_def await_def call_def note_event_def
        get_prop_def object_prototype_def object_prototype_names_def)

text \<open>The theorem at a text payload with choices: the text renderer and the choices
  renderer both fire, in that order. And at a card: the first renderer makes it a carousel
  in the store, the carousel renderer, asked in the store that this \<open>render\<close> has left,
  applies to it; the renderers of that channel are stateless, and a second call of \<open>send\<close>
  with the same card runs the same two renderers.\<close>

theorem send_renderers_witness:
  "send_context demo_channel ''conv-1'' (JRef 0) text_state = (Ok text_context, text_state_copied)
   \<and> fst (render_loop demo_channel setupRenderers text_context text_state_copied)
       = Ok (text_context\<lparr>handlers := [''id'', ''id''],
                         message_blocks := [JStr ''block'', JStr ''block'']\<rparr>)
   \<and> setupRenderers = [CardToCarouselRenderer] @ SlackTextRenderer #
        [SlackImageRenderer, SlackCarouselRenderer, SlackChoicesRenderer, SlackFeedbackRenderer]
   \<and> render_loop demo_channel [CardToCarouselRenderer] text_context text_state_copied
       = (Ok text_context, note_event (RHandles CardToCarouselRenderer False) text_state_copied)
   \<and> (\<exists>es rest.
         trace (snd (send demo_channel ''conv-1'' (JRef 0) text_state))
           = trace text_state @ ConvGet ''bot-a'' ''conv-1'' # es @ rest
       \<and> map fst (renderers_asked es) = setupRenderers
       \<and> renderers_asked es ! 1 = (SlackTextRenderer, True)
       \<and> renderers_run es = [SlackTextRenderer, SlackChoicesRenderer])
   \<and> r_handles demo_channel SlackTextRenderer text_context (fst (mach text_state_copied))
   \<and> r_render demo_channel SlackTextRenderer text_context (mach text_state_copied)
       = (Ok (text_context\<lparr>message_blocks := [JStr ''block'']\<rparr>), mach text_state_copied)
   \<and> fst (render_loop demo_channel [CardToCarouselRenderer, SlackTextRenderer]
              text_context text_state_copied)
       = Ok (text_context\<lparr>message_blocks := [JStr ''block''], handlers := [''id'']\<rparr>)
   \<and> send_context card_channel ''conv-1'' (JRef 0) card_state = (Ok card_context, card_state_copied)
   \<and> render_loop card_channel [CardToCarouselRenderer] card_context card_state_copied
       = (Ok (card_context\<lparr>payload := JRef 2, handlers := [''id'']\<rparr>),
          \<lparr>mach = (carousel_store, ()),
           trace = [ConvGet ''bot-a'' ''conv-1'',
                    RHandles CardToCarouselRenderer True, RRender CardToCarouselRenderer]\<rparr>)
   \<and> \<not> r_handles card_channel SlackCarouselRenderer card_context (fst (mach card_state_copied))
   \<and> r_handles card_channel SlackCarouselRenderer
         (card_context\<lparr>payload := JRef 2, handlers := [''id'']\<rparr>) carousel_store
   \<and> render_loop card_channel
         [CardToCarouselRenderer, SlackTextRenderer, SlackImageRenderer, SlackCarouselRenderer]
         card_context card_state_copied
       = (Ok (card_context\<lparr>payload := JRef 2, handlers := [''id'', ''id''],
                           message_blocks := [JStr ''block'']\<rparr>),
          \<lparr>mach = (carousel_store, ()),
           trace = [ConvGet ''bot-a'' ''conv-1'',
                    RHandles CardToCarouselRenderer True, RRender CardToCarouselRenderer,
                    RHandles SlackTextRenderer False, RHandles SlackImageRenderer False,
                    RHandles SlackCarouselRenderer True, RRender SlackCarouselRenderer]\<rparr>)
   \<and> stateless_renderers card_channel
   \<and> fst (conv_get card_channel (botId card_channel) ''conv-1'' (mach card_state))
       = Ok (Some demo_conversation)
   \<and> same_payload (JRef 0) (copy_store card_channel ''conv-1'' card_state)
        (JRef 0) (copy_store card_channel ''conv-1''
                    (snd (send card_channel ''conv-1'' (JRef 0) card_state)))
   \<and> renderers_run (drop (length (trace card_state))
        (trace (snd (send card_channel ''conv-1'' (JRef 0) card_state))))
       = [CardToCarouselRenderer, SlackCarouselRenderer]
   \<and> renderers_run
        (drop (length (trace (snd (send card_channel ''conv-1'' (JRef 0) card_state))))
           (trace (snd (send card_channel ''conv-1'' (JRef 0)
                          (snd (send card_channel ''conv-1'' (JRef 0) card_state))))))
       = [CardToCarouselRenderer, SlackCarouselRenderer]"
proof -
  obtain es rest where
        tr: "trace (snd (send demo_channel ''conv-1'' (JRef 0) text_state))
              = trace text_state @ ConvGet (botId demo_channel) ''conv-1'' # es @ rest"
    and run: "renderers_run es = map fst (filter snd (renderers_asked es))"
    and no: "renderers_asked rest = []" "renderers_run rest = []"
    and detail: "\<forall>ctx s1. send_context demo_channel ''conv-1'' (JRef 0) text_state = (Ok ctx, s1) \<longrightarrow>
         ((\<exists>c. fst (render_loop demo_channel setupRenderers ctx s1) = Ok c) \<longrightarrow>
            map fst (renderers_asked es) = setupRenderers)
       \<and> (\<forall>pre r post c1 s2.
            setupRenderers = pre @ r # post \<and> render_loop demo_channel pre ctx s1 = (Ok c1, s2) \<longrightarrow>
              length pre < length (renderers_asked es)
            \<and> renderers_asked es ! length pre = (r, r_handles demo_channel r c1 (fst (mach s2)))
            \<and> (\<forall>c2 m2. r_handles demo_channel r c1 (fst (mach s2))
                        \<and> r_render demo_channel r c1 (mach s2) = (Ok c2, m2) \<longrightarrow>
                 fst (render_loop demo_channel (pre @ [r]) ctx s1)
                   = Ok (c2\<lparr>handlers := handlers c2 @ [''id'']\<rparr>)))"
    using send_consults_renderers_in_declared_order[of demo_channel "''conv-1''" "JRef 0" text_state,
        THEN conjunct1]
    by blast
  have bot: "botId demo_channel = ''bot-a''" by (simp add: demo_channel_def)
  have split: "setupRenderers = [CardToCarouselRenderer] @ SlackTextRenderer #
        [SlackImageRenderer, SlackCarouselRenderer, SlackChoicesRenderer, SlackFeedbackRenderer]"
    by (simp add: setupRenderers_def)
  have pre: "render_loop demo_channel [CardToCarouselRenderer] text_context text_state_copied
       = (Ok text_context, note_event (RHandles CardToCarouselRenderer False) text_state_copied)"
    by (simp add: demo_defs)
  have ok: "\<exists>c. fst (render_loop demo_channel setupRenderers text_context text_state_copied) = Ok c"
    by (simp add: demo_render_loop)
  have all: "map fst (renderers_asked es) = setupRenderers"
    using detail demo_send_context ok by blast
  have second: "renderers_asked es ! length [CardToCarouselRenderer]
      = (SlackTextRenderer, r_handles demo_channel SlackTextRenderer text_context
           (fst (mach (note_event (RHandles CardToCarouselRenderer False) text_state_copied))))"
    using detail demo_send_context split pre by blast
  have second': "renderers_asked es ! 1 = (SlackTextRenderer, True)"
    using second by (simp add: demo_defs)
  have "es @ rest = tl (trace (snd (send demo_channel ''conv-1'' (JRef 0) text_state)))"
    using tr by (simp add: text_state_def)
  then have "renderers_run (es @ rest) = [SlackTextRenderer, SlackChoicesRenderer]"
    unfolding demo_send_trace by (simp add: renderers_run_simps)
  then have ran: "renderers_run es = [SlackTextRenderer, SlackChoicesRenderer]"
    using no(2) by (simp add: renderers_run_append)
  have yes: "r_handles demo_channel SlackTextRenderer text_context
               (fst (mach (note_event (RHandles CardToCarouselRenderer False) text_state_copied)))"
    by (simp add: demo_defs)
  have rendered: "r_render demo_channel SlackTextRenderer text_context
               (mach (note_event (RHandles CardToCarouselRenderer False) text_state_copied))
       = (Ok (text_context\<lparr>message_blocks := [JStr ''block'']\<rparr>), mach text_state_copied)"
    by (simp add: demo_defs)
  note at_text = detail[rule_format, OF demo_send_context, THEN conjunct2, rule_format,
      OF conjI[OF split pre]]
  note marked = at_text[THEN conjunct2, THEN conjunct2, rule_format, OF conjI[OF yes rendered]]
  have marker: "fst (render_loop demo_channel [CardToCarouselRenderer, SlackTextRenderer]
              text_context text_state_copied)
       = Ok (text_context\<lparr>message_blocks := [JStr ''block''], handlers := [''id'']\<rparr>)"
    using marked by (simp add: text_context_def)
  have yes': "r_handles demo_channel SlackTextRenderer text_context (fst (mach text_state_copied))"
    using yes by (simp add: note_event_def)
  have rendered': "r_render demo_channel SlackTextRenderer text_context (mach text_state_copied)
       = (Ok (text_context\<lparr>message_blocks := [JStr ''block'']\<rparr>), mach text_state_copied)"
    using rendered by (simp add: note_event_def)
  have found: "\<exists>es rest.
         trace (snd (send demo_channel ''conv-1'' (JRef 0) text_state))
           = trace text_state @ ConvGet ''bot-a'' ''conv-1'' # es @ rest
       \<and> map fst (renderers_asked es) = setupRenderers
       \<and> renderers_asked es ! 1 = (SlackTextRenderer, True)
       \<and> renderers_run es = [SlackTextRenderer, SlackChoicesRenderer]"
    using tr all second' ran bot by auto
  have whole: "fst (render_loop demo_channel setupRenderers text_context text_state_copied)
       = Ok (text_context\<lparr>handlers := [''id'', ''id''],
                         message_blocks := [JStr ''block'', JStr ''block'']\<rparr>)"
    by (simp add: demo_render_loop)
  note card = send_consults_renderers_in_declared_order[of card_channel "''conv-1''" "JRef 0"
      card_state, THEN conjunct2]
  note loop = card[THEN conjunct1, rule_format, OF card_send_context, THEN conjunct2]
  note start = loop[THEN conjunct1]
  note next_renderer = loop[THEN conjunct2, rule_format]
  note card_defs = card_channel_def demo_channel_def card_context_def card_state_copied_def
      carousel_store_def get_prop_def object_prototype_def object_prototype_names_def
  have one: "render_loop card_channel [CardToCarouselRenderer] card_context card_state_copied
       = (Ok (card_context\<lparr>payload := JRef 2, handlers := [''id'']\<rparr>),
          \<lparr>mach = (carousel_store, ()),
           trace = [ConvGet ''bot-a'' ''conv-1'',
                    RHandles CardToCarouselRenderer True, RRender CardToCarouselRenderer]\<rparr>)"
    using next_renderer[OF start, of CardToCarouselRenderer] by (simp add: card_defs)
  have two: "render_loop card_channel [CardToCarouselRenderer, SlackTextRenderer]
         card_context card_state_copied
       = (Ok (card_context\<lparr>payload := JRef 2, handlers := [''id'']\<rparr>),
          \<lparr>mach = (carousel_store, ()),
           trace = [ConvGet ''bot-a'' ''conv-1'',
                    RHandles CardToCarouselRenderer True, RRender CardToCarouselRenderer,
                    RHandles SlackTextRenderer False]\<rparr>)"
    using next_renderer[OF one, of SlackTextRenderer] by (simp add: card_defs)
  have three: "render_loop card_channel
         [CardToCarouselRenderer, SlackTextRenderer, SlackImageRenderer]
         card_context card_state_copied
       = (Ok (card_context\<lparr>payload := JRef 2, handlers := [''id'']\<rparr>),
          \<lparr>mach = (carousel_store, ()),
           trace = [ConvGet ''bot-a'' ''conv-1'',
                    RHandles CardToCarouselRenderer True, RRender CardToCarouselRenderer,
                    RHandles SlackTextRenderer False, RHandles SlackImageRenderer False]\<rparr>)"
    using next_renderer[OF two, of SlackImageRenderer] by (simp add: card_defs)
  have four: "render_loop card_channel
         [CardToCarouselRenderer, SlackTextRenderer, SlackImageRenderer, SlackCarouselRenderer]
         card_context card_state_copied
       = (Ok (card_context\<lparr>payload := JRef 2, handlers := [''id'', ''id''],
                           message_blocks := [JStr ''block'']\<rparr>),
          \<lparr>mach = (carousel_store, ()),
           trace = [ConvGet ''bot-a'' ''conv-1'',
                    RHandles CardToCarouselRenderer True, RRender CardToCarouselRenderer,
                    RHandles SlackTextRenderer False, RHandles SlackImageRenderer False,
                    RHandles SlackCarouselRenderer True, RRender SlackCarouselRenderer]\<rparr>)"
    using next_renderer[OF three, of SlackCarouselRenderer] by (simp add: card_defs)
  have not_yet: "\<not> r_handles card_channel SlackCarouselRenderer card_context
                      (fst (mach card_state_copied))"
    by (simp add: card_defs)
  have now: "r_handles card_channel SlackCarouselRenderer
         (card_context\<lparr>payload := JRef 2, handlers := [''id'']\<rparr>) carousel_store"
    by (simp add: card_defs)
  let ?s2 = "snd (send card_channel ''conv-1'' (JRef 0) card_state)"
  have l1: "fst (conv_get card_channel (botId card_channel) ''conv-1'' (mach card_state))
       = Ok (Some demo_conversation)"
    by (simp add: card_channel_def demo_channel_def)
  have l2: "fst (conv_get card_channel (botId card_channel) ''conv-1'' (mach ?s2))
       = Ok (Some demo_conversation)"
    by (simp add: card_channel_def demo_channel_def)
  have "same_shape (\<lambda>a. a) {0} (fst (mach card_state)) carousel_store"
    by (simp add: same_shape_def card_state_def carousel_store_def obj_refs_def rename_obj_def)
  then have "same_payload (JRef 0) (fst (mach card_state)) (JRef 0) carousel_store"
    unfolding same_payload_def
    by (intro exI[of _ "\<lambda>a. a"] exI[of _ "{0}"]) simp
  then have sp: "same_payload (JRef 0) (copy_store card_channel ''conv-1'' card_state)
        (JRef 0) (copy_store card_channel ''conv-1'' ?s2)"
    unfolding card_send_state by (simp add: copy_store_def card_channel_def demo_channel_def)
  note again = card[THEN conjunct2, rule_format, OF card_channel_stateless,
      OF conjI[OF l1 conjI[OF l2 sp]], THEN conjunct2]
  have once: "renderers_run (drop (length (trace card_state))
        (trace (snd (send card_channel ''conv-1'' (JRef 0) card_state))))
       = [CardToCarouselRenderer, SlackCarouselRenderer]"
    unfolding card_send_state by (simp add: card_state_def renderers_run_simps)
  have twice: "renderers_run (drop (length (trace ?s2))
           (trace (snd (send card_channel ''conv-1'' (JRef 0) ?s2))))
       = [CardToCarouselRenderer, SlackCarouselRenderer]"
    using again once by simp
  show ?thesis
    by (intro conjI)
       (fact demo_send_context whole split pre found yes' rendered' marker
             card_send_context one not_yet now four card_channel_stateless l1 sp once twice)+
qed

lemma send_as_two_senders:
  assumes "send_context ch cid p s = (Ok ctx0, s0)"
      and "render_loop ch setupRenderers ctx0 s0 = (Ok ctx, s1)"
  shows "let a1 = s_handles ch SlackTypingSender ctx (fst (mach s1));
             sent1 = s_send ch SlackTypingSender ctx (mach s1);
             s2 = (if a1
                   then \<lparr>mach = meanwhile ch (snd sent1),
                         trace = trace s1 @ [SHandles SlackTypingSender True, SSend SlackTypingSender]\<rparr>
                   else \<lparr>mach = mach s1,
                         trace = trace s1 @ [SHandles SlackTypingSender False]\<rparr>);
             a2 = s_handles ch SlackCommonSender ctx (fst (mach s2));
             sent2 = s_send ch SlackCommonSender ctx (mach s2);
             s3 = (if a2
                   then \<lparr>mach = meanwhile ch (snd sent2),
                         trace = trace s2 @ [SHandles SlackCommonSender True, SSend SlackCommonSender]\<rparr>
                   else \<lparr>mach = mach s2,
                         trace = trace s2 @ [SHandles SlackCommonSender False]\<rparr>)
         in send ch cid p s =
              (case (if a1 then fst sent1 else Ok ()) of
                 Threw e \<Rightarrow> (Threw e, s2)
               | Ok u \<Rightarrow> (if a2 then fst sent2 else Ok (), s3))"
proof -
  have eq: "send ch cid p s = sender_loop ch setupSenders ctx s1"
    using assms by (simp add: send_def)
  have unit_res: "(case r of Threw e \<Rightarrow> (Threw e, t) | Ok u \<Rightarrow> (Ok (), t)) = (r, t)"
    for r :: "unit res" and t :: "'a state"
    by (cases r) auto
  show ?thesis
    unfolding eq setupSenders_def Let_def
    by (auto simp: call_eq await_eq note_event_def unit_res split: res.splits)
qed

text \<open>
  Claim C4. When the conversation lookup and the renderers have returned, the rest of the
  trace of \<open>send\<close> is the events \<open>es\<close> of the sender loop: sender by sender the question
  \<open>handles\<close> followed by the \<open>send\<close> when the answer was yes, over an initial part of the
  declared list \<open>setupSenders\<close> (the typing sender, then the common sender), all of it when
  \<open>send\<close> returns. The sender at any position is asked in the state that the awaited
  \<open>send\<close> calls of the senders before it have left. If its \<open>send\<close> throws \<open>e\<close>, then
  \<open>send\<close> throws \<open>e\<close>, this sender is the last one asked, and no later sender of the list
  is asked or run.

  The last part spells the call out for the two senders of the list. The typing sender is
  asked in the state \<open>s1\<close> that the renderers left. If it applies, its \<open>send\<close> runs on the
  machine of \<open>s1\<close> and is awaited: the machine of the next state \<open>s2\<close> is what the \<open>send\<close>
  has left and the code that ran during the suspension has made of it. If that \<open>send\<close>
  threw, \<open>send\<close> ends there in \<open>s2\<close> with its error. Otherwise the common sender is asked
  in \<open>s2\<close>, and likewise run and awaited, whose result and state \<open>s3\<close> are those of
  \<open>send\<close>.
\<close>

theorem send_runs_senders_in_order_and_stops_at_a_throw:
  assumes "send_context ch cid p s = (Ok ctx0, s0)"
      and "render_loop ch setupRenderers ctx0 s0 = (Ok ctx, s1)"
  shows "(\<exists>es.
      trace (snd (send ch cid p s)) = trace s1 @ es
    \<and> concat (map sender_events (senders_asked es)) = es
    \<and> prefix (map fst (senders_asked es)) setupSenders
    \<and> senders_run es = map fst (filter snd (senders_asked es))
    \<and> ((\<exists>u. fst (send ch cid p s) = Ok u) \<longrightarrow>
          map fst (senders_asked es) = setupSenders)
    \<and> (\<forall>pre x post s2.
          setupSenders = pre @ x # post \<and> sender_loop ch pre ctx s1 = (Ok (), s2) \<longrightarrow>
            length pre < length (senders_asked es)
          \<and> senders_asked es ! length pre = (x, s_handles ch x ctx (fst (mach s2)))
          \<and> (\<forall>e. s_handles ch x ctx (fst (mach s2)) \<and> fst (s_send ch x ctx (mach s2)) = Threw e \<longrightarrow>
                 fst (send ch cid p s) = Threw e
               \<and> map fst (senders_asked es) = pre @ [x]
               \<and> (\<forall>y \<in> set post. y \<notin> set (map fst (senders_asked es))
                                       \<and> y \<notin> set (senders_run es)))))
    \<and> (let a1 = s_handles ch SlackTypingSender ctx (fst (mach s1));
            sent1 = s_send ch SlackTypingSender ctx (mach s1);
            s2 = (if a1
                  then \<lparr>mach = meanwhile ch (snd sent1),
                        trace = trace s1 @ [SHandles SlackTypingSender True, SSend SlackTypingSender]\<rparr>
                  else \<lparr>mach = mach s1,
                        trace = trace s1 @ [SHandles SlackTypingSender False]\<rparr>);
            a2 = s_handles ch SlackCommonSender ctx (fst (mach s2));
            sent2 = s_send ch SlackCommonSender ctx (mach s2);
            s3 = (if a2
                  then \<lparr>mach = meanwhile ch (snd sent2),
                        trace = trace s2 @ [SHandles SlackCommonSender True, SSend SlackCommonSender]\<rparr>
                  else \<lparr>mach = mach s2,
                        trace = trace s2 @ [SHandles SlackCommonSender False]\<rparr>)
        in send ch cid p s =
             (case (if a1 then fst sent1 else Ok ()) of
                Threw e \<Rightarrow> (Threw e, s2)
              | Ok u \<Rightarrow> (if a2 then fst sent2 else Ok (), s3)))"
proof (rule conjI)
  have eq: "send ch cid p s = sender_loop ch setupSenders ctx s1"
    using assms by (simp add: send_def)
  obtain es where es: "trace (snd (sender_loop ch setupSenders ctx s1)) = trace s1 @ es"
      "concat (map sender_events (senders_asked es)) = es"
      "prefix (map fst (senders_asked es)) setupSenders"
      "(\<exists>u. fst (sender_loop ch setupSenders ctx s1) = Ok u) \<longrightarrow> map fst (senders_asked es) = setupSenders"
    using sender_loop_trace[of ch setupSenders ctx s1] by blast
  have run: "senders_run es = map fst (filter snd (senders_asked es))"
    using senders_run_of_answers[of "senders_asked es"] es(2) by simp
  have nth: "length pre < length (senders_asked es)
          \<and> senders_asked es ! length pre = (x, s_handles ch x ctx (fst (mach s2)))"
    if "setupSenders = pre @ x # post" "sender_loop ch pre ctx s1 = (Ok (), s2)" for pre x post s2
    using sender_loop_nth_answer[OF that es(1)] .
  have stop: "fst (send ch cid p s) = Threw e \<and> map fst (senders_asked es) = pre @ [x]"
    if "setupSenders = pre @ x # post" "sender_loop ch pre ctx s1 = (Ok (), s2)"
       "s_handles ch x ctx (fst (mach s2))" "fst (s_send ch x ctx (mach s2)) = Threw e"
    for pre x post s2 e
    using sender_loop_throw[OF that es(1)] eq by simp
  have later: "\<forall>y \<in> set post. y \<notin> set (map fst (senders_asked es)) \<and> y \<notin> set (senders_run es)"
    if "setupSenders = pre @ x # post" "map fst (senders_asked es) = pre @ [x]" for pre x post
  proof -
    have "distinct (pre @ x # post)"
      using that(1) by (metis distinct.simps(2) distinct_length_2_or_more distinct_singleton
          sender.distinct(1) setupSenders_def)
    then have "\<forall>y \<in> set post. y \<notin> set (pre @ [x])" by auto
    moreover have "set (senders_run es) \<subseteq> set (map fst (senders_asked es))"
      using run by auto
    ultimately show ?thesis using that(2) by auto
  qed
  have f6: "\<forall>pre x post s2.
          setupSenders = pre @ x # post \<and> sender_loop ch pre ctx s1 = (Ok (), s2) \<longrightarrow>
            length pre < length (senders_asked es)
          \<and> senders_asked es ! length pre = (x, s_handles ch x ctx (fst (mach s2)))
          \<and> (\<forall>e. s_handles ch x ctx (fst (mach s2)) \<and> fst (s_send ch x ctx (mach s2)) = Threw e \<longrightarrow>
                 fst (send ch cid p s) = Threw e
               \<and> map fst (senders_asked es) = pre @ [x]
               \<and> (\<forall>y \<in> set post. y \<notin> set (map fst (senders_asked es))
                                       \<and> y \<notin> set (senders_run es)))"
    using nth stop later by blast
  have f1: "trace (snd (send ch cid p s)) = trace s1 @ es"
    using es(1) eq by simp
  have f5: "(\<exists>u. fst (send ch cid p s) = Ok u) \<longrightarrow> map fst (senders_asked es) = setupSenders"
    using es(4) eq by simp
  show "\<exists>es.
      trace (snd (send ch cid p s)) = trace s1 @ es
    \<and> concat (map sender_events (senders_asked es)) = es
    \<and> prefix (map fst (senders_asked es)) setupSenders
    \<and> senders_run es = map fst (filter snd (senders_asked es))
    \<and> ((\<exists>u. fst (send ch cid p s) = Ok u) \<longrightarrow>
          map fst (senders_asked es) = setupSenders)
    \<and> (\<forall>pre x post s2.
          setupSenders = pre @ x # post \<and> sender_loop ch pre ctx s1 = (Ok (), s2) \<longrightarrow>
            length pre < length (senders_asked es)
          \<and> senders_asked es ! length pre = (x, s_handles ch x ctx (fst (mach s2)))
          \<and> (\<forall>e. s_handles ch x ctx (fst (mach s2)) \<and> fst (s_send ch x ctx (mach s2)) = Threw e \<longrightarrow>
                 fst (send ch cid p s) = Threw e
               \<and> map fst (senders_asked es) = pre @ [x]
               \<and> (\<forall>y \<in> set post. y \<notin> set (map fst (senders_asked es))
                                       \<and> y \<notin> set (senders_run es))))"
    by (rule exI[of _ es]) (use f1 es(2,3) run f5 f6 in blast)
next
  show "let a1 = s_handles ch SlackTypingSender ctx (fst (mach s1));
            sent1 = s_send ch SlackTypingSender ctx (mach s1);
            s2 = (if a1
                  then \<lparr>mach = meanwhile ch (snd sent1),
                        trace = trace s1 @ [SHandles SlackTypingSender True, SSend SlackTypingSender]\<rparr>
                  else \<lparr>mach = mach s1,
                        trace = trace s1 @ [SHandles SlackTypingSender False]\<rparr>);
            a2 = s_handles ch SlackCommonSender ctx (fst (mach s2));
            sent2 = s_send ch SlackCommonSender ctx (mach s2);
            s3 = (if a2
                  then \<lparr>mach = meanwhile ch (snd sent2),
                        trace = trace s2 @ [SHandles SlackCommonSender True, SSend SlackCommonSender]\<rparr>
                  else \<lparr>mach = mach s2,
                        trace = trace s2 @ [SHandles SlackCommonSender False]\<rparr>)
        in send ch cid p s =
             (case (if a1 then fst sent1 else Ok ()) of
                Threw e \<Rightarrow> (Threw e, s2)
              | Ok u \<Rightarrow> (if a2 then fst sent2 else Ok (), s3))"
    by (rule send_as_two_senders[OF assms])
qed

text \<open>The theorem at a channel whose typing sender throws: \<open>send\<close> throws the same
  value and the common sender is not run; at the channel where both senders return; and
  at the channel whose common sender applies only once the typing indicator has been
  sent and, during the suspension, acknowledged: asked before that it would not apply,
  and in \<open>send\<close> it does.\<close>

theorem send_senders_witness:
  "send_context failing_channel ''conv-1'' (JRef 0) text_state = (Ok text_context, text_state_copied)
   \<and> fst (render_loop failing_channel setupRenderers text_context text_state_copied)
       = Ok (text_context\<lparr>handlers := [''id'', ''id''],
                         message_blocks := [JStr ''block'', JStr ''block'']\<rparr>)
   \<and> setupSenders = [] @ SlackTypingSender # [SlackCommonSender]
   \<and> s_handles failing_channel SlackTypingSender
         (text_context\<lparr>handlers := [''id'', ''id''],
                       message_blocks := [JStr ''block'', JStr ''block'']\<rparr>)
         (fst (mach text_state_copied))
   \<and> fst (s_send failing_channel SlackTypingSender
         (text_context\<lparr>handlers := [''id'', ''id''],
                       message_blocks := [JStr ''block'', JStr ''block'']\<rparr>)
         (mach text_state_copied)) = Threw (JStr ''timeout'')
   \<and> fst (send failing_channel ''conv-1'' (JRef 0) text_state) = Threw (JStr ''timeout'')
   \<and> (\<exists>es. senders_asked es = [(SlackTypingSender, True)]
            \<and> senders_run es = [SlackTypingSender]
            \<and> SlackCommonSender \<notin> set (senders_run es)
            \<and> trace (snd (send failing_channel ''conv-1'' (JRef 0) text_state)) =
       [ConvGet ''bot-a'' ''conv-1'', RHandles CardToCarouselRenderer False,
        RHandles SlackTextRenderer True, RRender SlackTextRenderer,
        RHandles SlackImageRenderer False,
        RHandles SlackCarouselRenderer False,
        RHandles SlackChoicesRenderer True, RRender SlackChoicesRenderer,
        RHandles SlackFeedbackRenderer False] @ es)
   \<and> fst (send demo_channel ''conv-1'' (JRef 0) text_state) = Ok ()
   \<and> (\<exists>es. map fst (senders_asked es) = setupSenders
            \<and> senders_run es = [SlackTypingSender, SlackCommonSender]
            \<and> trace (snd (send demo_channel ''conv-1'' (JRef 0) text_state)) =
       [ConvGet ''bot-a'' ''conv-1'', RHandles CardToCarouselRenderer False,
        RHandles SlackTextRenderer True, RRender SlackTextRenderer,
        RHandles SlackImageRenderer False,
        RHandles SlackCarouselRenderer False,
        RHandles SlackChoicesRenderer True, RRender SlackChoicesRenderer,
        RHandles SlackFeedbackRenderer False] @ es)
   \<and> send_context acking_channel ''conv-1'' (JRef 0) acking_state
       = (Ok text_context, acking_rendered\<lparr>trace := [ConvGet ''bot-a'' ''conv-1'']\<rparr>)
   \<and> render_loop acking_channel setupRenderers text_context
         (acking_rendered\<lparr>trace := [ConvGet ''bot-a'' ''conv-1'']\<rparr>)
       = (Ok text_context, acking_rendered)
   \<and> \<not> s_handles acking_channel SlackCommonSender text_context (fst (mach acking_rendered))
   \<and> s_send acking_channel SlackTypingSender text_context (mach acking_rendered)
       = (Ok (), (fst (mach acking_rendered), [2]))
   \<and> meanwhile acking_channel (fst (mach acking_rendered), [2]) = (acked_store, [])
   \<and> s_handles acking_channel SlackCommonSender text_context acked_store
   \<and> send acking_channel ''conv-1'' (JRef 0) acking_state
       = (Ok (), \<lparr>mach = (acked_store, []),
                  trace = trace acking_rendered
                    @ [SHandles SlackTypingSender True, SSend SlackTypingSender,
                       SHandles SlackCommonSender True, SSend SlackCommonSender]\<rparr>)"
proof -
  let ?ctx = "text_context\<lparr>handlers := [''id'', ''id''],
                       message_blocks := [JStr ''block'', JStr ''block'']\<rparr>"
  let ?s1 = "text_state_copied\<lparr>trace := [ConvGet ''bot-a'' ''conv-1'',
        RHandles CardToCarouselRenderer False,
        RHandles SlackTextRenderer True, RRender SlackTextRenderer,
        RHandles SlackImageRenderer False,
        RHandles SlackCarouselRenderer False,
        RHandles SlackChoicesRenderer True, RRender SlackChoicesRenderer,
        RHandles SlackFeedbackRenderer False]\<rparr>"
  have sc: "send_context failing_channel ''conv-1'' (JRef 0) text_state = (Ok text_context, text_state_copied)"
    by (simp add: failing_channel_def demo_defs)
  have rl: "render_loop failing_channel setupRenderers text_context text_state_copied = (Ok ?ctx, ?s1)"
    by (simp add: failing_channel_def demo_defs)
  have split: "setupSenders = [] @ SlackTypingSender # [SlackCommonSender]"
    by (simp add: setupSenders_def)
  have pre: "sender_loop failing_channel [] ?ctx ?s1 = (Ok (), ?s1)"
    by simp
  have h: "s_handles failing_channel SlackTypingSender ?ctx (fst (mach ?s1))"
    by (simp add: failing_channel_def demo_channel_def)
  have t: "fst (s_send failing_channel SlackTypingSender ?ctx (mach ?s1)) = Threw (JStr ''timeout'')"
    by (simp add: failing_channel_def demo_channel_def)
  obtain es where
        tr: "trace (snd (send failing_channel ''conv-1'' (JRef 0) text_state)) = trace ?s1 @ es"
    and run: "senders_run es = map fst (filter snd (senders_asked es))"
    and detail: "\<forall>pre x post s2.
          setupSenders = pre @ x # post \<and> sender_loop failing_channel pre ?ctx ?s1 = (Ok (), s2) \<longrightarrow>
            length pre < length (senders_asked es)
          \<and> senders_asked es ! length pre = (x, s_handles failing_channel x ?ctx (fst (mach s2)))
          \<and> (\<forall>e. s_handles failing_channel x ?ctx (fst (mach s2))
                   \<and> fst (s_send failing_channel x ?ctx (mach s2)) = Threw e \<longrightarrow>
                 fst (send failing_channel ''conv-1'' (JRef 0) text_state) = Threw e
               \<and> map fst (senders_asked es) = pre @ [x]
               \<and> (\<forall>y \<in> set post. y \<notin> set (map fst (senders_asked es))
                                       \<and> y \<notin> set (senders_run es)))"
    using send_runs_senders_in_order_and_stops_at_a_throw[OF sc rl, THEN conjunct1] by blast
  have d0: "setupSenders = [] @ SlackTypingSender # [SlackCommonSender]
            \<and> sender_loop failing_channel [] ?ctx ?s1 = (Ok (), ?s1)"
    by (rule conjI[OF split pre])
  note d1 = detail[rule_format, OF d0]
  note d2 = d1[THEN conjunct2, THEN conjunct2, rule_format, OF conjI[OF h t]]
  have thrown: "fst (send failing_channel ''conv-1'' (JRef 0) text_state) = Threw (JStr ''timeout'')"
    using d2 by (elim conjE)
  have only: "map fst (senders_asked es) = [SlackTypingSender]"
    using d2 by simp
  have first: "senders_asked es ! 0 = (SlackTypingSender, True)"
    using d1[THEN conjunct2, THEN conjunct1] h by simp
  have asked: "senders_asked es = [(SlackTypingSender, True)]"
  proof -
    have "length (senders_asked es) = 1"
      using only by (metis length_map length_Cons list.size(3) One_nat_def)
    then show ?thesis using first by (cases "senders_asked es") auto
  qed
  have ran: "senders_run es = [SlackTypingSender]"
    using run asked by simp
  have "senders_asked es = [(SlackTypingSender, True)]
            \<and> senders_run es = [SlackTypingSender]
            \<and> SlackCommonSender \<notin> set (senders_run es)
            \<and> trace (snd (send failing_channel ''conv-1'' (JRef 0) text_state)) =
       [ConvGet ''bot-a'' ''conv-1'', RHandles CardToCarouselRenderer False,
        RHandles SlackTextRenderer True, RRender SlackTextRenderer,
        RHandles SlackImageRenderer False,
        RHandles SlackCarouselRenderer False,
        RHandles SlackChoicesRenderer True, RRender SlackChoicesRenderer,
        RHandles SlackFeedbackRenderer False] @ es"
    using asked ran tr by simp
  then have failing: "\<exists>es. senders_asked es = [(SlackTypingSender, True)]
            \<and> senders_run es = [SlackTypingSender]
            \<and> SlackCommonSender \<notin> set (senders_run es)
            \<and> trace (snd (send failing_channel ''conv-1'' (JRef 0) text_state)) =
       [ConvGet ''bot-a'' ''conv-1'', RHandles CardToCarouselRenderer False,
        RHandles SlackTextRenderer True, RRender SlackTextRenderer,
        RHandles SlackImageRenderer False,
        RHandles SlackCarouselRenderer False,
        RHandles SlackChoicesRenderer True, RRender SlackChoicesRenderer,
        RHandles SlackFeedbackRenderer False] @ es"
    by blast
  obtain es2 where
        tr2: "trace (snd (send demo_channel ''conv-1'' (JRef 0) text_state)) = trace ?s1 @ es2"
    and all2: "(\<exists>u. fst (send demo_channel ''conv-1'' (JRef 0) text_state) = Ok u) \<longrightarrow>
                 map fst (senders_asked es2) = setupSenders"
    using send_runs_senders_in_order_and_stops_at_a_throw[OF demo_send_context demo_render_loop,
        THEN conjunct1]
    by blast
  have ok: "fst (send demo_channel ''conv-1'' (JRef 0) text_state) = Ok ()"
    unfolding send_def demo_send_context
    apply (simp only: prod.case res.case demo_render_loop)
    by (simp add: demo_defs)
  have es2: "es2 = [SHandles SlackTypingSender True, SSend SlackTypingSender,
                    SHandles SlackCommonSender True, SSend SlackCommonSender]"
    using tr2 unfolding demo_send_trace by simp
  have working: "\<exists>es. map fst (senders_asked es) = setupSenders
            \<and> senders_run es = [SlackTypingSender, SlackCommonSender]
            \<and> trace (snd (send demo_channel ''conv-1'' (JRef 0) text_state)) =
       [ConvGet ''bot-a'' ''conv-1'', RHandles CardToCarouselRenderer False,
        RHandles SlackTextRenderer True, RRender SlackTextRenderer,
        RHandles SlackImageRenderer False,
        RHandles SlackCarouselRenderer False,
        RHandles SlackChoicesRenderer True, RRender SlackChoicesRenderer,
        RHandles SlackFeedbackRenderer False] @ es"
    apply (rule exI[of _ es2])
    using all2 ok tr2 es2 by (simp add: senders_run_simps)
  have rl': "fst (render_loop failing_channel setupRenderers text_context text_state_copied)
       = Ok ?ctx"
    using rl by simp
  have h': "s_handles failing_channel SlackTypingSender ?ctx (fst (mach text_state_copied))"
    using h by simp
  have t': "fst (s_send failing_channel SlackTypingSender ?ctx (mach text_state_copied))
              = Threw (JStr ''timeout'')"
    using t by simp
  let ?a0 = "acking_rendered\<lparr>trace := [ConvGet ''bot-a'' ''conv-1'']\<rparr>"
  have asc: "send_context acking_channel ''conv-1'' (JRef 0) acking_state = (Ok text_context, ?a0)"
    by (simp add: acking_channel_def acking_state_def acking_rendered_def demo_defs)
  have arl: "render_loop acking_channel setupRenderers text_context ?a0
               = (Ok text_context, acking_rendered)"
    by (simp add: acking_channel_def acking_rendered_def setupRenderers_def note_event_def)
  have before: "\<not> s_handles acking_channel SlackCommonSender text_context (fst (mach acking_rendered))"
    by (simp add: acking_channel_def acking_rendered_def text_context_def text_state_copied_def
          get_prop_def object_prototype_def object_prototype_names_def)
  have typing: "s_send acking_channel SlackTypingSender text_context (mach acking_rendered)
       = (Ok (), (fst (mach acking_rendered), [2]))"
    by (simp add: acking_channel_def acking_rendered_def text_context_def)
  have acked: "meanwhile acking_channel (fst (mach acking_rendered), [2]) = (acked_store, [])"
    by (simp add: acking_channel_def acking_rendered_def text_state_copied_def set_prop_def
          acked_store_def)
  have after: "s_handles acking_channel SlackCommonSender text_context acked_store"
    by (simp add: acking_channel_def text_context_def acked_store_def get_prop_def)
  have first_yes: "s_handles acking_channel SlackTypingSender text_context (fst (mach acking_rendered))"
    by (simp add: acking_channel_def)
  have common: "s_send acking_channel SlackCommonSender text_context (acked_store, [])
                  = (Ok (), (acked_store, []))"
    by (simp add: acking_channel_def text_context_def)
  have idle: "meanwhile acking_channel (acked_store, []) = (acked_store, [])"
    by (simp add: acking_channel_def)
  have whole: "send acking_channel ''conv-1'' (JRef 0) acking_state
       = (Ok (), \<lparr>mach = (acked_store, []),
                  trace = trace acking_rendered
                    @ [SHandles SlackTypingSender True, SSend SlackTypingSender,
                       SHandles SlackCommonSender True, SSend SlackCommonSender]\<rparr>)"
    using send_runs_senders_in_order_and_stops_at_a_throw[OF asc arl, THEN conjunct2]
    unfolding Let_def
    by (simp add: first_yes typing acked after common idle)
  show ?thesis
    by (intro conjI)
       (fact sc rl' split h' t' thrown failing ok working asc arl before typing acked after whole)+
qed


lemma render_loop_threw:
  assumes "fst (render_loop ch rs ctx s) = Threw e"
      and "trace (snd (render_loop ch rs ctx s)) = trace s @ es"
  shows "renderers_run es \<noteq> []"
  using assms
proof (induction rs arbitrary: ctx s es)
  case Nil
  then show ?case by simp
next
  case (Cons r rs)
  show ?case
  proof (cases "r_handles ch r ctx (fst (mach s))")
    case False
    let ?s1 = "note_event (RHandles r False) s"
    have loop: "render_loop ch (r # rs) ctx s = render_loop ch rs ctx ?s1"
      using False by simp
    obtain es' where es': "trace (snd (render_loop ch rs ctx ?s1)) = trace ?s1 @ es'"
      using render_loop_trace[of ch rs ctx ?s1] by blast
    have "es = RHandles r False # es'"
      using Cons.prems(2) loop es' by (simp add: note_event_def)
    moreover have "renderers_run es' \<noteq> []"
      using Cons.IH[of ctx ?s1 es'] Cons.prems(1) loop es' by simp
    ultimately show ?thesis by (simp add: renderers_run_simps)
  next
    case True
    let ?s1 = "note_event (RHandles r True) s"
    obtain res s2 where cl: "call (RRender r) (r_render ch r ctx) ?s1 = (res, s2)"
      by (metis surj_pair)
    have tr2: "trace s2 = trace s @ [RHandles r True, RRender r]"
      using cl by (auto simp: call_eq note_event_def)
    obtain es' where es': "trace (snd (render_loop ch (r # rs) ctx s)) = trace s2 @ es'"
    proof (cases res)
      case (Threw e')
      then have "render_loop ch (r # rs) ctx s = (Threw e', s2)" using True cl by simp
      then have "trace (snd (render_loop ch (r # rs) ctx s)) = trace s2 @ []" by simp
      then show ?thesis using that by blast
    next
      case (Ok c1)
      then have "render_loop ch (r # rs) ctx s
                   = render_loop ch rs (c1\<lparr>handlers := handlers c1 @ [''id'']\<rparr>) s2"
        using True cl by simp
      then show ?thesis
        using render_loop_trace[of ch rs "c1\<lparr>handlers := handlers c1 @ [''id'']\<rparr>" s2] that
        by auto
    qed
    have "es = RHandles r True # RRender r # es'"
      using Cons.prems(2) es' tr2 by simp
    then show ?thesis by (simp add: renderers_run_simps)
  qed
qed

lemma sender_loop_threw:
  assumes "fst (sender_loop ch xs ctx s) = Threw e"
      and "trace (snd (sender_loop ch xs ctx s)) = trace s @ es"
  shows "senders_run es \<noteq> []"
proof -
  obtain es' where es': "trace (snd (sender_loop ch xs ctx s)) = trace s @ es'"
      "concat (map sender_events (senders_asked es')) = es'"
      "(\<exists>u. fst (sender_loop ch xs ctx s) = Ok u) \<longrightarrow> map fst (senders_asked es') = xs"
    using sender_loop_trace[of ch xs ctx s] by blast
  have same: "es' = es" using es'(1) assms(2) by simp
  show ?thesis
    using assms
  proof (induction xs arbitrary: s es)
    case Nil
    then show ?case by simp
  next
    case (Cons x xs)
    show ?case
    proof (cases "s_handles ch x ctx (fst (mach s))")
      case False
      let ?s1 = "note_event (SHandles x False) s"
      have loop: "sender_loop ch (x # xs) ctx s = sender_loop ch xs ctx ?s1"
        using False by simp
      obtain es' where es': "trace (snd (sender_loop ch xs ctx ?s1)) = trace ?s1 @ es'"
        using sender_loop_trace[of ch xs ctx ?s1] by blast
      have "es = SHandles x False # es'"
        using Cons.prems(2) loop es' by (simp add: note_event_def)
      moreover have "senders_run es' \<noteq> []"
        using Cons.IH[of ?s1 es'] Cons.prems(1) loop es' by simp
      ultimately show ?thesis by (simp add: senders_run_simps)
    next
      case True
      let ?s1 = "note_event (SHandles x True) s"
      obtain res s2 where cl: "await ch (call (SSend x) (s_send ch x ctx)) ?s1 = (res, s2)"
        by (metis surj_pair)
      have tr2: "trace s2 = trace s @ [SHandles x True, SSend x]"
        using cl by (auto simp: call_eq await_eq note_event_def)
      obtain es' where es': "trace (snd (sender_loop ch (x # xs) ctx s)) = trace s2 @ es'"
      proof (cases res)
        case (Threw e')
        then have "sender_loop ch (x # xs) ctx s = (Threw e', s2)" using True cl by simp
        then have "trace (snd (sender_loop ch (x # xs) ctx s)) = trace s2 @ []" by simp
        then show ?thesis using that by blast
      next
        case (Ok u)
        then have "sender_loop ch (x # xs) ctx s = sender_loop ch xs ctx s2"
          using True cl by simp
        then show ?thesis
          using sender_loop_trace[of ch xs ctx s2] that by auto
      qed
      have "es = SHandles x True # SSend x # es'"
        using Cons.prems(2) es' tr2 by simp
      then show ?thesis by (simp add: senders_run_simps)
    qed
  qed
qed

lemma render_loop_throws_what_render_threw:
  "fst (render_loop ch rs ctx s) = Threw e \<Longrightarrow> \<exists>r c m. fst (r_render ch r c m) = Threw e"
proof (induction rs arbitrary: ctx s)
  case Nil
  then show ?case by simp
next
  case (Cons r rs)
  show ?case
  proof (cases "r_handles ch r ctx (fst (mach s))")
    case False
    then show ?thesis using Cons by simp
  next
    case True
    obtain res s2 where cl:
        "call (RRender r) (r_render ch r ctx) (note_event (RHandles r True) s) = (res, s2)"
      by (metis surj_pair)
    show ?thesis
    proof (cases res)
      case (Threw e')
      then have "e' = e" using Cons.prems True cl by simp
      moreover have "fst (r_render ch r ctx (mach s)) = Threw e'"
        using cl Threw by (simp add: call_eq note_event_def)
      ultimately show ?thesis by blast
    next
      case (Ok c1)
      then show ?thesis using Cons True cl by simp
    qed
  qed
qed

lemma sender_loop_throws_what_send_threw:
  "fst (sender_loop ch xs ctx s) = Threw e \<Longrightarrow> \<exists>x c m. fst (s_send ch x c m) = Threw e"
proof (induction xs arbitrary: s)
  case Nil
  then show ?case by simp
next
  case (Cons x xs)
  show ?case
  proof (cases "s_handles ch x ctx (fst (mach s))")
    case False
    then show ?thesis using Cons by simp
  next
    case True
    obtain res s2 where cl:
        "await ch (call (SSend x) (s_send ch x ctx)) (note_event (SHandles x True) s) = (res, s2)"
      by (metis surj_pair)
    show ?thesis
    proof (cases res)
      case (Threw e')
      then have "e' = e" using Cons.prems True cl by simp
      moreover have "fst (s_send ch x ctx (mach s)) = Threw e'"
        using cl Threw by (simp add: call_eq await_eq note_event_def)
      ultimately show ?thesis by blast
    next
      case (Ok u)
      then show ?thesis using Cons True cl by simp
    qed
  qed
qed

text \<open>
  Claim C9, as amended. When the conversation store resolves the id to nothing, \<open>send\<close>
  raises no error of its own: it builds the context with an \<open>undefined\<close> \<open>channelId\<close> and
  runs the renderer chain and the sender chain as in any other call, starting with the
  question to the first renderer. If \<open>send\<close> throws at all, a renderer or a sender has
  been run, and what \<open>send\<close> throws is what a renderer's \<open>render\<close> or a sender's
  \<open>send\<close> has thrown.
\<close>

theorem send_runs_the_chains_without_a_conversation:
  assumes "fst (conv_get ch (botId ch) cid (mach s)) = Ok None"
  shows "\<exists>ctx s1 es.
      send_context ch cid p s = (Ok ctx, s1)
    \<and> channelId ctx = JUndefined
    \<and> send ch cid p s =
        (case render_loop ch setupRenderers ctx s1 of
           (Threw e, s2) \<Rightarrow> (Threw e, s2)
         | (Ok ctx', s2) \<Rightarrow> sender_loop ch setupSenders ctx' s2)
    \<and> trace (snd (send ch cid p s)) =
        trace s @ ConvGet (botId ch) cid
          # RHandles CardToCarouselRenderer (r_handles ch CardToCarouselRenderer ctx (fst (mach s1))) # es
    \<and> (\<forall>e. fst (send ch cid p s) = Threw e \<longrightarrow>
          renderers_run (RHandles CardToCarouselRenderer
                           (r_handles ch CardToCarouselRenderer ctx (fst (mach s1))) # es) \<noteq> []
        \<or> senders_run es \<noteq> [])
    \<and> (\<forall>e. fst (send ch cid p s) = Threw e \<longrightarrow>
          (\<exists>r c m. fst (r_render ch r c m) = Threw e)
        \<or> (\<exists>x c m. fst (s_send ch x c m) = Threw e))"
proof -
  obtain ctx s1 where sc: "send_context ch cid p s = (Ok ctx, s1)" and ci: "channelId ctx = JUndefined"
    using send_context_resolved[OF assms, of p] by simp
  have tr1: "trace s1 = trace s @ [ConvGet (botId ch) cid]"
    using send_context_trace[of ch cid p s] sc by simp
  have eq: "send ch cid p s =
        (case render_loop ch setupRenderers ctx s1 of
           (Threw e, s2) \<Rightarrow> (Threw e, s2)
         | (Ok ctx', s2) \<Rightarrow> sender_loop ch setupSenders ctx' s2)"
    using sc by (simp add: send_def)
  obtain res1 s2 where rl: "render_loop ch setupRenderers ctx s1 = (res1, s2)"
    by (metis surj_pair)
  have f6: "\<forall>e. fst (send ch cid p s) = Threw e \<longrightarrow>
          (\<exists>r c m. fst (r_render ch r c m) = Threw e)
        \<or> (\<exists>x c m. fst (s_send ch x c m) = Threw e)"
  proof (intro allI impI)
    fix e
    assume thrown: "fst (send ch cid p s) = Threw e"
    show "(\<exists>r c m. fst (r_render ch r c m) = Threw e)
        \<or> (\<exists>x c m. fst (s_send ch x c m) = Threw e)"
    proof (cases res1)
      case (Threw e')
      then have "fst (render_loop ch setupRenderers ctx s1) = Threw e"
        using thrown eq rl by simp
      then show ?thesis
        using render_loop_throws_what_render_threw by blast
    next
      case (Ok ctx')
      then have "fst (sender_loop ch setupSenders ctx' s2) = Threw e"
        using thrown eq rl by simp
      then show ?thesis
        using sender_loop_throws_what_send_threw by blast
    qed
  qed
  obtain es1 where es1: "trace s2 = trace s1 @ es1"
      "concat (map renderer_events (renderers_asked es1)) = es1"
      "renderers_asked es1 \<noteq> []"
      "hd (renderers_asked es1) = (CardToCarouselRenderer, r_handles ch CardToCarouselRenderer ctx (fst (mach s1)))"
    using render_loop_trace[of ch setupRenderers ctx s1] rl by (auto simp: setupRenderers_def)
  let ?first = "RHandles CardToCarouselRenderer (r_handles ch CardToCarouselRenderer ctx (fst (mach s1)))"
  obtain es1' where es1': "es1 = ?first # es1'"
  proof -
    obtain a as where as: "renderers_asked es1 = a # as"
      using es1(3) by (cases "renderers_asked es1") auto
    then have "a = (CardToCarouselRenderer, r_handles ch CardToCarouselRenderer ctx (fst (mach s1)))"
      using es1(4) by simp
    then have "es1 = ?first # ((if r_handles ch CardToCarouselRenderer ctx (fst (mach s1))
                   then [RRender CardToCarouselRenderer] else []) @ concat (map renderer_events as))"
      using es1(2) as by simp
    then show ?thesis using that by blast
  qed
  show ?thesis
  proof (cases res1)
    case (Threw e)
    have sd: "send ch cid p s = (Threw e, s2)" using eq rl Threw by simp
    have f4: "trace (snd (send ch cid p s)) = trace s @ ConvGet (botId ch) cid # ?first # es1'"
      using sd es1(1) tr1 es1' by simp
    have "renderers_run es1 \<noteq> []"
      using render_loop_threw[of ch setupRenderers ctx s1 e es1] rl Threw es1(1) by simp
    then have f5: "\<forall>e. fst (send ch cid p s) = Threw e \<longrightarrow>
          renderers_run (?first # es1') \<noteq> [] \<or> senders_run es1' \<noteq> []"
      using es1' by simp
    show ?thesis
      by (rule exI[of _ ctx], rule exI[of _ s1], rule exI[of _ es1']) (use sc ci eq f4 f5 f6 in blast)
  next
    case (Ok ctx')
    have sd: "send ch cid p s = sender_loop ch setupSenders ctx' s2" using eq rl Ok by simp
    obtain es2 where es2: "trace (snd (sender_loop ch setupSenders ctx' s2)) = trace s2 @ es2"
      using sender_loop_trace[of ch setupSenders ctx' s2] by blast
    have f4: "trace (snd (send ch cid p s)) = trace s @ ConvGet (botId ch) cid # ?first # (es1' @ es2)"
      using sd es2 es1(1) tr1 es1' by simp
    have "senders_run es2 \<noteq> []" if "fst (send ch cid p s) = Threw e" for e
      using sender_loop_threw[of ch setupSenders ctx' s2 e es2] that sd es2 by simp
    then have f5: "\<forall>e. fst (send ch cid p s) = Threw e \<longrightarrow>
          renderers_run (?first # (es1' @ es2)) \<noteq> [] \<or> senders_run (es1' @ es2) \<noteq> []"
      by (simp add: senders_run_append)
    show ?thesis
      by (rule exI[of _ ctx], rule exI[of _ s1], rule exI[of _ "es1' @ es2"])
         (use sc ci eq f4 f5 f6 in blast)
  qed
qed

text \<open>Claim C9 as stated fails: with a conversation id the store does not know, \<open>send\<close>
  returns normally after two renderers and both senders have run.\<close>

theorem send_unresolved_conversation_counterexample:
  "fst (conv_get demo_channel (botId demo_channel) ''conv-404'' (mach text_state)) = Ok None
   \<and> fst (send demo_channel ''conv-404'' (JRef 0) text_state) = Ok ()
   \<and> trace (snd (send demo_channel ''conv-404'' (JRef 0) text_state)) =
       [ConvGet ''bot-a'' ''conv-404'', RHandles CardToCarouselRenderer False,
        RHandles SlackTextRenderer True, RRender SlackTextRenderer,
        RHandles SlackImageRenderer False,
        RHandles SlackCarouselRenderer False,
        RHandles SlackChoicesRenderer True, RRender SlackChoicesRenderer,
        RHandles SlackFeedbackRenderer False,
        SHandles SlackTypingSender True, SSend SlackTypingSender,
        SHandles SlackCommonSender True, SSend SlackCommonSender]"
  by (simp add: send_def demo_defs)

text \<open>The theorem at the same unknown conversation id.\<close>

theorem send_without_conversation_witness:
  "fst (conv_get demo_channel (botId demo_channel) ''conv-404'' (mach text_state)) = Ok None
   \<and> (\<exists>ctx s1 es.
        send_context demo_channel ''conv-404'' (JRef 0) text_state = (Ok ctx, s1)
      \<and> channelId ctx = JUndefined
      \<and> trace (snd (send demo_channel ''conv-404'' (JRef 0) text_state)) =
          trace text_state @ ConvGet (botId demo_channel) ''conv-404''
            # RHandles CardToCarouselRenderer
                (r_handles demo_channel CardToCarouselRenderer ctx (fst (mach s1))) # es)
   \<and> fst (conv_get failing_channel (botId failing_channel) ''conv-404'' (mach text_state)) = Ok None
   \<and> fst (send failing_channel ''conv-404'' (JRef 0) text_state) = Threw (JStr ''timeout'')
   \<and> (\<exists>ctx s1 es.
        send_context failing_channel ''conv-404'' (JRef 0) text_state = (Ok ctx, s1)
      \<and> (renderers_run (RHandles CardToCarouselRenderer
                           (r_handles failing_channel CardToCarouselRenderer ctx (fst (mach s1))) # es)
            \<noteq> []
          \<or> senders_run es \<noteq> []))"
proof -
  have h: "fst (conv_get demo_channel (botId demo_channel) ''conv-404'' (mach text_state)) = Ok None"
    by (simp add: demo_channel_def)
  have a: "\<exists>ctx s1 es.
        send_context demo_channel ''conv-404'' (JRef 0) text_state = (Ok ctx, s1)
      \<and> channelId ctx = JUndefined
      \<and> trace (snd (send demo_channel ''conv-404'' (JRef 0) text_state)) =
          trace text_state @ ConvGet (botId demo_channel) ''conv-404''
            # RHandles CardToCarouselRenderer
                (r_handles demo_channel CardToCarouselRenderer ctx (fst (mach s1))) # es"
    using send_runs_the_chains_without_a_conversation[OF h, of "JRef 0"] by blast
  have h': "fst (conv_get failing_channel (botId failing_channel) ''conv-404'' (mach text_state)) = Ok None"
    by (simp add: failing_channel_def demo_channel_def)
  have thrown: "fst (send failing_channel ''conv-404'' (JRef 0) text_state) = Threw (JStr ''timeout'')"
    by (simp add: send_def failing_channel_def demo_defs)
  have b: "\<exists>ctx s1 es.
        send_context failing_channel ''conv-404'' (JRef 0) text_state = (Ok ctx, s1)
      \<and> (renderers_run (RHandles CardToCarouselRenderer
                           (r_handles failing_channel CardToCarouselRenderer ctx (fst (mach s1))) # es)
            \<noteq> []
          \<or> senders_run es \<noteq> [])"
    using send_runs_the_chains_without_a_conversation[OF h', of "JRef 0"] thrown by blast
  show ?thesis
    by (intro conjI) (fact h a h' thrown b)+
qed






















end
